theory Spec2Isabelle
  imports Complex_Main
begin

section \<open>Conventions of the embedding\<close>

text \<open>
  The motion control engine of the feeder firmware lives in three classes:
  \<^verbatim>\<open>HBridge\<close> (\<^verbatim>\<open>hardware/drives.py\<close>), \<^verbatim>\<open>PeelMotor\<close> (\<^verbatim>\<open>system/peel.py\<close>) and
  \<^verbatim>\<open>Servo\<close> (\<^verbatim>\<open>system/servo.py\<close>). Each class is a record of its attributes and each
  method is a function from the record to the updated record.

  \<^item> Encoder positions, tick-valued settings and clock readings are Python integers:
    \<open>int\<close>. Gains, speeds and PWM duties are Python floats, idealised as \<open>real\<close>.
  \<^item> A method that can raise returns the exception beside the state it had reached
    when it raised, since a Python object keeps the attribute writes made before the
    exception.
  \<^item> The servo and its peel motor hold a reference to the same \<^verbatim>\<open>HBridge\<close> object.
    The model keeps one bridge, in the servo record, and the peel motor's methods take
    and return it.
  \<^item> The encoder and the clock are inputs: every method takes the values that the
    reads it performs return.
  \<^item> Logging through \<^verbatim>\<open>dmesg\<close> writes no attribute of the three classes and is left
    out.
\<close>

datatype error = ValueError

text \<open>What a method does next: fall through to the following statement, return a
  value, or raise.\<close>

datatype flow = Next | Return bool | Raise error

section \<open>The H-bridge (\<^verbatim>\<open>hardware/drives.py\<close>)\<close>

text \<open>Every call of \<^verbatim>\<open>drive_set\<close> and \<^verbatim>\<open>peel_set\<close> is recorded in the history field
  \<open>calls\<close>, in order, with the speed it was given. The field is not an attribute of the
  source; it is what the statements about commands sent to the actuator speak of.\<close>

datatype call = DriveSet real | PeelSet real

record hbridge =
  enabled :: bool
  auto_brake :: bool
  drive_pwm_min :: real
  peel_pwm_min :: real
  peel1_pwm :: real
  peel2_pwm :: real
  drive1_pwm :: real
  drive2_pwm :: real
  calls :: "call list"

text \<open>Python's \<^verbatim>\<open>int()\<close> on a float truncates towards zero.\<close>

definition py_int :: "real \<Rightarrow> int" where
  "py_int x = (if 0 \<le> x then \<lfloor>x\<rfloor> else \<lceil>x\<rceil>)"

definition hbridge_enable :: "bool \<Rightarrow> hbridge \<Rightarrow> hbridge" where
  "hbridge_enable state d = d\<lparr>enabled := state\<rparr>"

text \<open>\<^verbatim>\<open>_set_motor_pwm\<close>: the duties written to the two channels of one motor.\<close>

definition set_motor_pwm :: "real \<Rightarrow> real \<Rightarrow> bool \<Rightarrow> error + (real \<times> real)" where
  "set_motor_pwm pwm_min speed forward =
     (if \<not> (0 \<le> speed \<and> speed \<le> 100) then Inl ValueError
      else
        let actual_pwm =
              (if pwm_min \<ge> 100 then (if speed > 0 then 100 else 0)
               else
                 let usable_range = 100 - pwm_min
                 in if usable_range > 0 then pwm_min + (speed / 100) * usable_range else 100);
            actual = real_of_int (py_int (max pwm_min (min 100 actual_pwm)))
        in Inr (if forward then (actual, 0) else (0, actual)))"

text \<open>The body shared by \<^verbatim>\<open>peel_set\<close> and \<^verbatim>\<open>drive_set\<close>, which differ in the channels
  and the PWM floor only: the new duties of the motor's two channels, or the exception.
  \<open>None\<close> means that the bridge is disabled and the call does nothing.\<close>

definition motor_set ::
  "real \<Rightarrow> bool option \<Rightarrow> bool \<Rightarrow> bool \<Rightarrow> bool \<Rightarrow> real \<Rightarrow> (error + (real \<times> real)) option" where
  "motor_set speed brake absolute_pwm en autobrake pwm_min =
     (if \<not> en then None
      else if \<not> (- 100 \<le> speed \<and> speed \<le> 100) then Some (Inl ValueError)
      else
        let brake' = (case brake of None \<Rightarrow> autobrake | Some b \<Rightarrow> b)
        in if speed = 0 then (if brake' then Some (Inr (100, 100)) else Some (Inr (0, 0)))
           else if absolute_pwm then
             (let pwm_val = min 100 \<bar>speed\<bar>
              in if speed > 0 then Some (Inr (pwm_val, 0)) else Some (Inr (0, pwm_val)))
           else Some (set_motor_pwm pwm_min \<bar>speed\<bar> (speed > 0)))"

definition peel_set :: "real \<Rightarrow> bool option \<Rightarrow> bool \<Rightarrow> hbridge \<Rightarrow> error option \<times> hbridge" where
  "peel_set speed brake absolute_pwm d =
     (let d1 = d\<lparr>calls := calls d @ [PeelSet speed]\<rparr>
      in case motor_set speed brake absolute_pwm (enabled d) (auto_brake d) (peel_pwm_min d) of
           None \<Rightarrow> (None, d1)
         | Some (Inl e) \<Rightarrow> (Some e, d1)
         | Some (Inr (p1, p2)) \<Rightarrow> (None, d1\<lparr>peel1_pwm := p1, peel2_pwm := p2\<rparr>))"

definition drive_set :: "real \<Rightarrow> bool option \<Rightarrow> bool \<Rightarrow> hbridge \<Rightarrow> error option \<times> hbridge" where
  "drive_set speed brake absolute_pwm d =
     (let d1 = d\<lparr>calls := calls d @ [DriveSet speed]\<rparr>
      in case motor_set speed brake absolute_pwm (enabled d) (auto_brake d) (drive_pwm_min d) of
           None \<Rightarrow> (None, d1)
         | Some (Inl e) \<Rightarrow> (Some e, d1)
         | Some (Inr (p1, p2)) \<Rightarrow> (None, d1\<lparr>drive1_pwm := p1, drive2_pwm := p2\<rparr>))"

text \<open>The speeds of the drive commands and of the peel commands in a history.\<close>

fun drive_cmds :: "call list \<Rightarrow> real list" where
  "drive_cmds [] = []"
| "drive_cmds (DriveSet v # cs) = v # drive_cmds cs"
| "drive_cmds (PeelSet v # cs) = drive_cmds cs"

fun peel_cmds :: "call list \<Rightarrow> real list" where
  "peel_cmds [] = []"
| "peel_cmds (DriveSet v # cs) = peel_cmds cs"
| "peel_cmds (PeelSet v # cs) = v # peel_cmds cs"

section \<open>The peel motor (\<^verbatim>\<open>system/peel.py\<close>)\<close>

datatype peel_state = STATE_STOPPED | STATE_FORWARD | STATE_REVERSE

record peel_motor =
  default_speed :: real
  default_time_ms :: int
  current_state :: peel_state
  target_run_time_ms :: int
  run_start_time_ms :: int
  current_actual_speed :: real

definition PeelMotor_init :: "real \<Rightarrow> int \<Rightarrow> peel_motor" where
  "PeelMotor_init speed time_ms =
     \<lparr>default_speed = \<bar>speed\<bar>, default_time_ms = time_ms, current_state = STATE_STOPPED,
      target_run_time_ms = 0, run_start_time_ms = 0, current_actual_speed = 0\<rparr>"

text \<open>\<^verbatim>\<open>state_map\<close> of \<^verbatim>\<open>run\<close>; a direction outside the dictionary has no state.\<close>

definition state_map :: "int \<Rightarrow> peel_state option" where
  "state_map direction_int =
     (if direction_int = 0 then Some STATE_STOPPED
      else if direction_int = 1 then Some STATE_FORWARD
      else if direction_int = - 1 then Some STATE_REVERSE
      else None)"

definition is_idle :: "peel_motor \<Rightarrow> bool" where
  "is_idle p = (current_state p = STATE_STOPPED)"

text \<open>\<^verbatim>\<open>_set_state\<close>. A stop is always carried out; a running state is skipped when
  state and speed are the ones already set.\<close>

definition set_state ::
  "peel_state \<Rightarrow> real option \<Rightarrow> peel_motor \<times> hbridge \<Rightarrow> error option \<times> peel_motor \<times> hbridge" where
  "set_state new_state speed_opt pd =
     (let p = fst pd; d = snd pd;
          speed_to_use =
            (if new_state = STATE_STOPPED then 0
             else case speed_opt of None \<Rightarrow> default_speed p | Some v \<Rightarrow> v)
      in if current_state p = new_state \<and> new_state \<noteq> STATE_STOPPED
            \<and> current_actual_speed p = speed_to_use
         then (None, p, d)
         else
           let p1 = p\<lparr>current_state := new_state,
                      current_actual_speed :=
                        (if new_state \<noteq> STATE_STOPPED then speed_to_use else 0)\<rparr>
           in case new_state of
                STATE_FORWARD \<Rightarrow>
                  (case peel_set (current_actual_speed p1) None False d of
                     (e, d') \<Rightarrow> (e, p1, d'))
              | STATE_REVERSE \<Rightarrow>
                  (case peel_set (- current_actual_speed p1) None False d of
                     (e, d') \<Rightarrow> (e, p1, d'))
              | STATE_STOPPED \<Rightarrow>
                  (case peel_set 0 None False d of
                     (Some e, d') \<Rightarrow> (Some e, p1, d')
                   | (None, d') \<Rightarrow>
                       (None,
                        p1\<lparr>run_start_time_ms := 0, target_run_time_ms := 0,
                           current_actual_speed := 0\<rparr>,
                        d')))"

text \<open>Lines 38 and 44 of \<^verbatim>\<open>run\<close>: the run time and the speed that a call stands
  for, with the defaults for arguments left out and the speed cut to 0..100.\<close>

definition run_time_of :: "peel_motor \<Rightarrow> int option \<Rightarrow> int" where
  "run_time_of p time_ms = (case time_ms of None \<Rightarrow> default_time_ms p | Some t \<Rightarrow> t)"

definition actual_speed_of :: "peel_motor \<Rightarrow> real option \<Rightarrow> real" where
  "actual_speed_of p speed = (case speed of Some v \<Rightarrow> min \<bar>v\<bar> 100 | None \<Rightarrow> default_speed p)"

text \<open>\<^verbatim>\<open>run(direction_int, time_ms=None, speed=None)\<close>; \<open>now_ms\<close> is what
  \<^verbatim>\<open>time.ticks_ms()\<close> returns when the timer is reset.\<close>

definition run ::
  "int \<Rightarrow> int option \<Rightarrow> real option \<Rightarrow> int \<Rightarrow> peel_motor \<times> hbridge
     \<Rightarrow> error option \<times> peel_motor \<times> hbridge" where
  "run direction_int time_ms speed now_ms pd =
     (let p = fst pd; d = snd pd
      in case state_map direction_int of
           None \<Rightarrow> (None, p, d)
         | Some direction_state \<Rightarrow>
             let run_time_ms = run_time_of p time_ms
             in if run_time_ms < 0 then (None, p, d)
                else
                  let actual_speed = actual_speed_of p speed
                  in if direction_state = STATE_STOPPED
                        \<or> (run_time_ms = 0 \<and> direction_state \<noteq> STATE_STOPPED)
                     then set_state STATE_STOPPED (Some 0) (p, d)
                     else
                       let state_changed =
                             (current_state p \<noteq> direction_state
                              \<or> current_state p = STATE_STOPPED
                              \<or> current_actual_speed p \<noteq> actual_speed)
                       in case (if state_changed
                                then set_state direction_state (Some actual_speed) (p, d)
                                else (None, p, d)) of
                            (Some e, p', d') \<Rightarrow> (Some e, p', d')
                          | (None, p', d') \<Rightarrow>
                              (None,
                               p'\<lparr>run_start_time_ms := now_ms,
                                  target_run_time_ms := run_time_ms\<rparr>,
                               d'))"

text \<open>MicroPython's \<^verbatim>\<open>time.ticks_diff\<close> on the board's 30-bit tick counter: the signed
  difference of two readings, modulo the counter's period.\<close>

definition ticks_diff :: "int \<Rightarrow> int \<Rightarrow> int" where
  "ticks_diff a b = ((a - b + 2 ^ 29) mod 2 ^ 30) - 2 ^ 29"

text \<open>\<^verbatim>\<open>PeelMotor.update\<close>.\<close>

definition peel_update ::
  "int \<Rightarrow> peel_motor \<times> hbridge \<Rightarrow> error option \<times> peel_motor \<times> hbridge" where
  "peel_update now_ms pd =
     (let p = fst pd; d = snd pd
      in if current_state p = STATE_STOPPED \<or> target_run_time_ms p \<le> 0 then (None, p, d)
         else
           let elapsed = ticks_diff now_ms (run_start_time_ms p)
           in if elapsed \<ge> target_run_time_ms p then set_state STATE_STOPPED (Some 0) (p, d)
              else (None, p, d))"

section \<open>The servo (\<^verbatim>\<open>system/servo.py\<close>)\<close>

record servo =
  Kp :: real
  Ki :: real
  Kd :: real
  pid_taper :: real
  max_output :: real
  min_output :: real
  backlash_takeup :: int
  tolerance :: int
  ramp_ticks :: int
  stable_updates :: int
  ramp_taper_percent :: real
  drives :: hbridge
  integral :: real
  previous_error :: int
  last_time_us :: int
  setpoint :: int
  original_setpoint :: int
  target_reached :: bool
  stable_count :: int
  initial_encoder_pos_at_move_start :: int
  initial_error_at_move_start :: int
  backlash_active :: bool
  waiting_for_peel_idle_phase1 :: bool
  current_movement_is_forward :: bool
  derivative :: real
  derivative_alpha :: real
  dynamic_scale_threshold :: real
  peel_motor_enabled_by_servo :: bool
  default_peel_speed :: real
  default_peel_run_time_ms :: int
  peel_motor :: peel_motor

text \<open>The keyword arguments of \<^verbatim>\<open>Servo.__init__\<close> (without \<^verbatim>\<open>dmesg\<close> and
  \<^verbatim>\<open>debug_enabled\<close>, which only steer logging, and without the encoder, which is an
  input of the methods that read it).\<close>

record servo_args =
  arg_Kp :: real
  arg_Ki :: real
  arg_Kd :: real
  arg_pid_taper :: real
  arg_max_output :: real
  arg_min_output :: real
  arg_backlash_takeup :: int
  arg_tolerance :: int
  arg_ramp_ticks :: int
  arg_stable_updates :: int
  arg_ramp_taper_percent :: real
  arg_brake :: bool
  arg_peel_enable :: bool
  arg_peel_speed :: real
  arg_peel_time_ms :: int
  arg_derivative_alpha :: real
  arg_dynamic_scale_threshold :: real

text \<open>The attribute writes of \<^verbatim>\<open>Servo.__init__\<close>, lines 27 to 67.\<close>

definition Servo_attrs :: "hbridge \<Rightarrow> servo_args \<Rightarrow> servo" where
  "Servo_attrs d a =
         \<lparr>Kp = arg_Kp a, Ki = arg_Ki a, Kd = arg_Kd a, pid_taper = arg_pid_taper a,
          max_output = \<bar>arg_max_output a\<bar>, min_output = \<bar>arg_min_output a\<bar>,
          backlash_takeup = \<bar>arg_backlash_takeup a\<bar>, tolerance = \<bar>arg_tolerance a\<bar>,
          ramp_ticks = \<bar>arg_ramp_ticks a\<bar>, stable_updates = arg_stable_updates a,
          ramp_taper_percent = max 0 (min 100 (arg_ramp_taper_percent a)),
          drives = d\<lparr>auto_brake := arg_brake a\<rparr>,
          integral = 0, previous_error = 0, last_time_us = 0,
          setpoint = 0, original_setpoint = 0, target_reached = True, stable_count = 0,
          initial_encoder_pos_at_move_start = 0, initial_error_at_move_start = 0,
          backlash_active = False, waiting_for_peel_idle_phase1 = False,
          current_movement_is_forward = True,
          derivative = 0, derivative_alpha = arg_derivative_alpha a,
          dynamic_scale_threshold = arg_dynamic_scale_threshold a,
          peel_motor_enabled_by_servo = arg_peel_enable a,
          default_peel_speed = arg_peel_speed a,
          default_peel_run_time_ms = arg_peel_time_ms a,
          peel_motor = PeelMotor_init (arg_peel_speed a) (arg_peel_time_ms a)\<rparr>"

text \<open>\<^verbatim>\<open>Servo.__init__\<close>. The constructor has no \<^verbatim>\<open>raise\<close> and calls nothing that
  raises on numbers, so it always returns the object: the result is always the right
  injection.\<close>

definition Servo_init :: "hbridge \<Rightarrow> servo_args \<Rightarrow> error + servo" where
  "Servo_init d a = Inr (Servo_attrs d a)"

text \<open>The default arguments of the constructor.\<close>

definition default_args :: servo_args where
  "default_args =
     \<lparr>arg_Kp = 5 / 100, arg_Ki = 1 / 1000, arg_Kd = 5 / 1000, arg_pid_taper = 30,
      arg_max_output = 80, arg_min_output = 5, arg_backlash_takeup = 200,
      arg_tolerance = 10, arg_ramp_ticks = 200, arg_stable_updates = 3,
      arg_ramp_taper_percent = 30, arg_brake = True,
      arg_peel_enable = False, arg_peel_speed = 75, arg_peel_time_ms = 1000,
      arg_derivative_alpha = 1 / 10, arg_dynamic_scale_threshold = 100\<rparr>"

text \<open>A bridge as \<^verbatim>\<open>HBridge.__init__\<close> leaves it: disabled, all duties zero.\<close>

definition fresh_bridge :: hbridge where
  "fresh_bridge =
     \<lparr>enabled = False, auto_brake = False, drive_pwm_min = 65, peel_pwm_min = 65,
      peel1_pwm = 0, peel2_pwm = 0, drive1_pwm = 0, drive2_pwm = 0, calls = []\<rparr>"

subsection \<open>Sequencing\<close>

text \<open>Statements run in order until one returns or raises.\<close>

definition seq ::
  "(servo \<Rightarrow> flow \<times> servo) \<Rightarrow> (servo \<Rightarrow> flow \<times> servo) \<Rightarrow> servo \<Rightarrow> flow \<times> servo" where
  "seq f g s = (case f s of (Next, s') \<Rightarrow> g s' | (r, s') \<Rightarrow> (r, s'))"

definition servo_drive_set :: "real \<Rightarrow> servo \<Rightarrow> flow \<times> servo" where
  "servo_drive_set v s =
     (case drive_set v None False (drives s) of
        (None, d) \<Rightarrow> (Next, s\<lparr>drives := d\<rparr>)
      | (Some e, d) \<Rightarrow> (Raise e, s\<lparr>drives := d\<rparr>))"

definition servo_peel_run ::
  "int \<Rightarrow> int option \<Rightarrow> real option \<Rightarrow> int \<Rightarrow> servo \<Rightarrow> flow \<times> servo" where
  "servo_peel_run direction_int time_ms speed now_ms s =
     (case run direction_int time_ms speed now_ms (peel_motor s, drives s) of
        (None, p, d) \<Rightarrow> (Next, s\<lparr>drives := d, peel_motor := p\<rparr>)
      | (Some e, p, d) \<Rightarrow> (Raise e, s\<lparr>drives := d, peel_motor := p\<rparr>))"

definition servo_peel_update :: "int \<Rightarrow> servo \<Rightarrow> flow \<times> servo" where
  "servo_peel_update now_ms s =
     (case peel_update now_ms (peel_motor s, drives s) of
        (None, p, d) \<Rightarrow> (Next, s\<lparr>drives := d, peel_motor := p\<rparr>)
      | (Some e, p, d) \<Rightarrow> (Raise e, s\<lparr>drives := d, peel_motor := p\<rparr>))"

text \<open>The peel motor's own commands of the servo: forward, reverse (both with the
  servo's run time and speed) and stop.\<close>

definition peel_forward :: "int \<Rightarrow> servo \<Rightarrow> flow \<times> servo" where
  "peel_forward now_ms s =
     servo_peel_run 1 (Some (default_peel_run_time_ms s)) (Some (default_peel_speed s)) now_ms s"

definition peel_reverse :: "int \<Rightarrow> servo \<Rightarrow> flow \<times> servo" where
  "peel_reverse now_ms s =
     servo_peel_run (- 1) (Some (default_peel_run_time_ms s)) (Some (default_peel_speed s))
       now_ms s"

text \<open>\<^verbatim>\<open>run(0)\<close> stops before the clock is read; the reading passed on is not used.\<close>

definition peel_stop :: "servo \<Rightarrow> flow \<times> servo" where
  "peel_stop s = servo_peel_run 0 None None 0 s"

subsection \<open>\<^verbatim>\<open>enable\<close>, \<^verbatim>\<open>stop\<close> and \<^verbatim>\<open>set_target\<close>\<close>

definition enable :: "bool \<Rightarrow> servo \<Rightarrow> flow \<times> servo" where
  "enable state s =
     (if state then (Next, s\<lparr>drives := hbridge_enable True (drives s)\<rparr>)
      else
        seq (servo_drive_set 0)
          (seq (\<lambda>s. if peel_motor_enabled_by_servo s then peel_stop s else (Next, s))
             (\<lambda>s. (Next,
                    s\<lparr>target_reached := True, backlash_active := False,
                      waiting_for_peel_idle_phase1 := False,
                      drives := hbridge_enable False (drives s)\<rparr>)))
          s)"

definition disable :: "servo \<Rightarrow> flow \<times> servo" where
  "disable s = enable False s"

definition stop :: "servo \<Rightarrow> flow \<times> servo" where
  "stop s =
     seq (servo_drive_set 0)
       (seq (\<lambda>s. if peel_motor_enabled_by_servo s then peel_stop s else (Next, s))
          (\<lambda>s. (Next,
                 s\<lparr>target_reached := True, backlash_active := False,
                   waiting_for_peel_idle_phase1 := False\<rparr>)))
       s"

definition is_target_reached :: "servo \<Rightarrow> bool" where
  "is_target_reached s = (target_reached s \<and> \<not> waiting_for_peel_idle_phase1 s)"

text \<open>The readings \<^verbatim>\<open>set_target\<close> takes from outside: the encoder's absolute count
  after its update, and the two clocks.\<close>

record target_env =
  target_pos :: int
  target_ms :: int
  target_us :: int

text \<open>Lines 101 to 131 of \<^verbatim>\<open>set_target\<close>: the direction of the move.\<close>

definition t_direction :: "int \<Rightarrow> target_env \<Rightarrow> servo \<Rightarrow> flow \<times> servo" where
  "t_direction target_position e s0 =
     (let current_pos = target_pos e;
          s = s0\<lparr>original_setpoint := target_position, target_reached := False,
                 backlash_active := False, waiting_for_peel_idle_phase1 := False\<rparr>
      in if original_setpoint s < current_pos then
           let s1 = s\<lparr>backlash_active := True,
                      setpoint := original_setpoint s - (ramp_ticks s + backlash_takeup s),
                      current_movement_is_forward := False\<rparr>
           in if peel_motor_enabled_by_servo s1 then
                if \<not> is_idle (peel_motor s1)
                then (Next, s1\<lparr>waiting_for_peel_idle_phase1 := True\<rparr>)
                else peel_reverse (target_ms e) s1
              else (Next, s1)
         else
           let s1 = s\<lparr>setpoint := original_setpoint s\<rparr>
           in if setpoint s1 \<noteq> current_pos then
                let s2 = s1\<lparr>current_movement_is_forward := (setpoint s1 > current_pos)\<rparr>
                in if peel_motor_enabled_by_servo s2 then peel_forward (target_ms e) s2
                   else (Next, s2)
              else
                let s2 = s1\<lparr>current_movement_is_forward := True\<rparr>
                in if peel_motor_enabled_by_servo s2 then peel_stop s2 else (Next, s2))"

text \<open>Lines 133 to 139: the control state is reset.\<close>

definition t_reset :: "target_env \<Rightarrow> servo \<Rightarrow> flow \<times> servo" where
  "t_reset e s =
     (Next,
      s\<lparr>integral := 0, previous_error := setpoint s - target_pos e,
        last_time_us := target_us e, stable_count := 0,
        initial_encoder_pos_at_move_start := target_pos e,
        initial_error_at_move_start := \<bar>setpoint s - target_pos e\<bar>\<rparr>)"

text \<open>Lines 141 to 153: a move that starts within tolerance.\<close>

definition t_tolerance :: "target_env \<Rightarrow> servo \<Rightarrow> flow \<times> servo" where
  "t_tolerance e s =
     (if initial_error_at_move_start s \<le> tolerance s then
        if backlash_active s \<and> \<not> current_movement_is_forward s then (Next, s)
        else
          seq (\<lambda>s. servo_drive_set 0 (s\<lparr>target_reached := True\<rparr>))
            (seq (\<lambda>s. if setpoint s = target_pos e \<and> peel_motor_enabled_by_servo s
                       then peel_stop s else (Next, s))
               (\<lambda>s. (Next, if backlash_active s then s\<lparr>backlash_active := False\<rparr> else s)))
            s
      else (Next, s))"

definition set_target :: "int \<Rightarrow> target_env \<Rightarrow> servo \<Rightarrow> flow \<times> servo" where
  "set_target target_position e =
     seq (enable True) (seq (t_direction target_position e) (seq (t_reset e) (t_tolerance e)))"

subsection \<open>\<^verbatim>\<open>update\<close>, the control tick\<close>

text \<open>What one call of \<^verbatim>\<open>update\<close> reads from outside: the encoder's absolute count
  after its update, and one field for each place that reads a clock (the peel motor's
  \<^verbatim>\<open>update\<close>, the \<^verbatim>\<open>run\<close> that starts phase 1, the \<^verbatim>\<open>run\<close> that starts phase 2, and
  the three calls of \<^verbatim>\<open>time.ticks_us()\<close> at lines 202, 286 and 303).\<close>

record tick_env =
  encoder_pos :: int
  ms_peel_update :: int
  ms_run_phase1 :: int
  ms_run_phase2 :: int
  us_phase2 :: int
  us_pid :: int
  us_end :: int

text \<open>Lines 158 and 159.\<close>

definition u_peel :: "tick_env \<Rightarrow> servo \<Rightarrow> flow \<times> servo" where
  "u_peel e s =
     (if peel_motor_enabled_by_servo s then servo_peel_update (ms_peel_update e) s
      else (Next, s))"

text \<open>Lines 161 to 164.\<close>

definition u_disabled :: "servo \<Rightarrow> flow \<times> servo" where
  "u_disabled s =
     (if \<not> enabled (drives s) then
        seq (\<lambda>s. if peel_motor_enabled_by_servo s \<and> \<not> is_idle (peel_motor s)
                  then peel_stop s else (Next, s))
          (\<lambda>s. (Return False, s)) s
      else (Next, s))"

text \<open>Lines 166 and 167.\<close>

definition u_idle :: "servo \<Rightarrow> flow \<times> servo" where
  "u_idle s =
     (if target_reached s \<and> \<not> waiting_for_peel_idle_phase1 s then (Return False, s)
      else (Next, s))"

text \<open>Lines 172 to 180: waiting for the peel motor before phase 1.\<close>

definition u_wait :: "tick_env \<Rightarrow> servo \<Rightarrow> flow \<times> servo" where
  "u_wait e s =
     (if backlash_active s \<and> \<not> current_movement_is_forward s
         \<and> waiting_for_peel_idle_phase1 s then
        if peel_motor_enabled_by_servo s \<and> \<not> is_idle (peel_motor s) then (Return True, s)
        else
          let s1 = s\<lparr>waiting_for_peel_idle_phase1 := False\<rparr>
          in if peel_motor_enabled_by_servo s1 then peel_reverse (ms_run_phase1 e) s1
             else (Next, s1)
      else (Next, s))"

text \<open>Lines 185 to 188.\<close>

definition u_phase1_stop :: "servo \<Rightarrow> flow \<times> servo" where
  "u_phase1_stop s =
     (if \<not> waiting_for_peel_idle_phase1 s then
        seq (servo_drive_set 0) (\<lambda>s. (Next, s\<lparr>waiting_for_peel_idle_phase1 := True\<rparr>)) s
      else (Next, s))"

text \<open>Lines 190 to 216: the transition to phase 2.\<close>

definition u_phase2 :: "tick_env \<Rightarrow> servo \<Rightarrow> flow \<times> servo" where
  "u_phase2 e s =
     (if peel_motor_enabled_by_servo s \<and> \<not> is_idle (peel_motor s) then (Return True, s)
      else
        let current_position = encoder_pos e;
            s1 = s\<lparr>waiting_for_peel_idle_phase1 := False,
                   setpoint := original_setpoint s,
                   current_movement_is_forward := True,
                   target_reached := False,
                   integral := 0,
                   previous_error := original_setpoint s - current_position,
                   last_time_us := us_phase2 e,
                   stable_count := 0,
                   initial_encoder_pos_at_move_start := current_position,
                   initial_error_at_move_start := \<bar>original_setpoint s - current_position\<bar>\<rparr>
        in seq (\<lambda>s. if peel_motor_enabled_by_servo s then peel_forward (ms_run_phase2 e) s
                     else (Next, s))
             (\<lambda>s. if initial_error_at_move_start s \<le> tolerance s then
                     seq (\<lambda>s. servo_drive_set 0 (s\<lparr>target_reached := True\<rparr>))
                       (\<lambda>s. (Return False, s\<lparr>backlash_active := False\<rparr>)) s
                   else (Next, s))
             s1)"

text \<open>Lines 182 to 216: the completion check of phase 1.\<close>

definition u_phase1 :: "tick_env \<Rightarrow> servo \<Rightarrow> flow \<times> servo" where
  "u_phase1 e s =
     (if backlash_active s \<and> \<not> current_movement_is_forward s then
        if encoder_pos e \<le> setpoint s then seq u_phase1_stop (u_phase2 e) s
        else (Next, s)
      else (Next, s))"

text \<open>Lines 218 and 219.\<close>

definition u_waiting :: "servo \<Rightarrow> flow \<times> servo" where
  "u_waiting s = (if waiting_for_peel_idle_phase1 s then (Return True, s) else (Next, s))"

text \<open>Lines 225 to 234: overshoot detection.\<close>

definition u_overshoot :: "tick_env \<Rightarrow> servo \<Rightarrow> flow \<times> servo" where
  "u_overshoot e s =
     (let current_position = encoder_pos e;
          distance_to_setpoint = \<bar>setpoint s - current_position\<bar>
      in if current_movement_is_forward s \<and> current_position > setpoint s
            \<and> distance_to_setpoint > tolerance s then
           seq (servo_drive_set 0)
             (\<lambda>s. (Return False,
                    if backlash_active s
                    then s\<lparr>target_reached := True, backlash_active := False\<rparr>
                    else s\<lparr>target_reached := True\<rparr>))
             s
         else (Next, s))"

text \<open>Lines 236 to 251: the target reached check.\<close>

definition u_reached :: "tick_env \<Rightarrow> servo \<Rightarrow> flow \<times> servo" where
  "u_reached e s =
     (let distance_to_setpoint = \<bar>setpoint s - encoder_pos e\<bar>
      in if distance_to_setpoint \<le> tolerance s then
           if \<not> (backlash_active s \<and> \<not> current_movement_is_forward s) then
             let s1 = s\<lparr>stable_count := stable_count s + 1\<rparr>
             in if stable_count s1 \<ge> stable_updates s1 then
                  seq (\<lambda>s. servo_drive_set 0 (s\<lparr>target_reached := True\<rparr>))
                    (\<lambda>s. (Return False,
                           if backlash_active s then s\<lparr>backlash_active := False\<rparr> else s))
                    s1
                else servo_drive_set 0 s1
           else (Next, s)
         else (Next, s\<lparr>stable_count := 0\<rparr>))"

text \<open>Lines 258 to 263: the output of phase 1, the reverse leg.\<close>

definition reverse_output :: "servo \<Rightarrow> int \<Rightarrow> real" where
  "reverse_output s distance_to_setpoint =
     (let reverse_min_speed = max_output s * (6 / 10);
          total_distance = initial_error_at_move_start s;
          progress0 = (if total_distance > 0
                       then real_of_int distance_to_setpoint / real_of_int total_distance
                       else 0);
          progress = max 0 (min 1 progress0);
          output = - (min_output s + (reverse_min_speed - min_output s) * progress)
      in max (- max_output s) (min output (- min_output s)))"

text \<open>Lines 267 to 279: the output of the ramp.\<close>

definition ramp_output :: "servo \<Rightarrow> int \<Rightarrow> real" where
  "ramp_output s distance_to_setpoint =
     (let tapered_speed = (ramp_taper_percent s / 100) * max_output s;
          min_ramp_speed = min (max tapered_speed (min_output s)) (max_output s);
          ramp_span = initial_error_at_move_start s - ramp_ticks s;
          output =
            (if ramp_span > 0 then
               let progress0 = real_of_int (distance_to_setpoint - ramp_ticks s)
                                 / real_of_int ramp_span;
                   progress = max 0 (min 1 progress0);
                   speed_range = max_output s - min_ramp_speed
               in min_ramp_speed + speed_range * progress
             else min_ramp_speed)
      in min output (max_output s))"

text \<open>Lines 285 to 300: one step of the PID controller; the output and the servo with
  the new integral and filtered derivative.\<close>

definition pid_step :: "tick_env \<Rightarrow> int \<Rightarrow> servo \<Rightarrow> real \<times> servo" where
  "pid_step e error s =
     (let P = Kp s * real_of_int error;
          dt = (if last_time_us s > 0
                then real_of_int (us_pid e - last_time_us s) / 1000000
                else 2 / 100);
          integral1 = integral s + real_of_int error * dt;
          max_integral = (if Ki s \<noteq> 0 then max_output s / Ki s else max_output s);
          integral2 = max (min integral1 max_integral) (- max_integral);
          I = Ki s * integral2;
          derivative1 =
            (if last_time_us s > 0 \<and> dt > 0 then
               let raw_derivative = real_of_int (error - previous_error s) / dt
               in derivative_alpha s * raw_derivative
                    + (1 - derivative_alpha s) * derivative s
             else derivative s);
          D = (if last_time_us s > 0 \<and> dt > 0 then Kd s * derivative1 else 0);
          output = P + I + D
      in (min (max output (min_output s)) (max_output s),
          s\<lparr>integral := integral2, derivative := derivative1\<rparr>))"

text \<open>Lines 253 to 300: the control output, or the exception of the \<^verbatim>\<open>drive_set(0)\<close> at
  line 283.\<close>

definition u_output :: "tick_env \<Rightarrow> servo \<Rightarrow> error option \<times> real \<times> servo" where
  "u_output e s =
     (let error = setpoint s - encoder_pos e;
          distance_to_setpoint = \<bar>error\<bar>
      in if backlash_active s \<and> \<not> current_movement_is_forward s
         then (None, reverse_output s distance_to_setpoint, s)
         else if distance_to_setpoint > ramp_ticks s
         then (None, ramp_output s distance_to_setpoint, s)
         else if \<bar>error\<bar> \<le> tolerance s then
           (case servo_drive_set 0 s of
              (Raise x, s') \<Rightarrow> (Some x, 0, s')
            | (_, s') \<Rightarrow> (None, 0, s'))
         else (case pid_step e error s of (output, s') \<Rightarrow> (None, output, s')))"

text \<open>Lines 253 to 307.\<close>

definition u_control :: "tick_env \<Rightarrow> servo \<Rightarrow> flow \<times> servo" where
  "u_control e s =
     (case u_output e s of
        (Some x, output, s') \<Rightarrow> (Raise x, s')
      | (None, output, s') \<Rightarrow>
          let s1 = s'\<lparr>previous_error := setpoint s - encoder_pos e, last_time_us := us_end e\<rparr>;
              output1 = max (min output (max_output s1)) (- max_output s1)
          in seq (servo_drive_set output1) (\<lambda>s. (Return True, s)) s1)"

definition update :: "tick_env \<Rightarrow> servo \<Rightarrow> flow \<times> servo" where
  "update e =
     seq (u_peel e) (seq u_disabled (seq u_idle (seq (u_wait e) (seq (u_phase1 e)
       (seq u_waiting (seq (u_overshoot e) (seq (u_reached e) (u_control e))))))))"

text \<open>A run of the scheduler: one \<^verbatim>\<open>update\<close> for each element of the list, each on
  the state the previous call left (also when that call raised).\<close>

fun updates :: "tick_env list \<Rightarrow> servo \<Rightarrow> servo" where
  "updates [] s = s"
| "updates (e # es) s = updates es (snd (update e s))"

section \<open>Example states\<close>

text \<open>An enabled bridge, and the peel motor of scenario C of the specification after
  \<^verbatim>\<open>run(1, 1000, 75)\<close> at clock reading 0.\<close>

definition bridge_on :: hbridge where
  "bridge_on = hbridge_enable True fresh_bridge"

definition scenario_c :: "peel_motor \<times> hbridge" where
  "scenario_c = snd (run 1 (Some 1000) (Some 75) 0 (PeelMotor_init 75 1000, bridge_on))"

text \<open>A tick and a \<^verbatim>\<open>set_target\<close> call whose clock reads all return the same
  instant.\<close>

definition tick_at :: "int \<Rightarrow> int \<Rightarrow> int \<Rightarrow> tick_env" where
  "tick_at pos ms us =
     \<lparr>encoder_pos = pos, ms_peel_update = ms, ms_run_phase1 = ms, ms_run_phase2 = ms,
      us_phase2 = us, us_pid = us, us_end = us\<rparr>"

definition target_at :: "int \<Rightarrow> int \<Rightarrow> int \<Rightarrow> target_env" where
  "target_at pos ms us = \<lparr>target_pos = pos, target_ms = ms, target_us = us\<rparr>"

text \<open>The servo built with the constructor's default arguments on a fresh bridge, and
  the same servo after \<^verbatim>\<open>set_target(1000)\<close> at position 0.\<close>

definition servo_default :: servo where
  "servo_default = Servo_attrs fresh_bridge default_args"

definition moving :: servo where
  "moving = snd (set_target 1000 (target_at 0 0 1000) servo_default)"

text \<open>The move to 1000 after one tick at 995, within tolerance of the setpoint.\<close>

definition held :: servo where
  "held = snd (update (tick_at 995 20 21000) moving)"

text \<open>A servo whose tolerance (10) is above its \<^verbatim>\<open>ramp_ticks\<close> (5), on the same move.\<close>

definition servo_tight :: servo where
  "servo_tight = Servo_attrs fresh_bridge (default_args\<lparr>arg_ramp_ticks := 5\<rparr>)"

definition moving_tight :: servo where
  "moving_tight = snd (set_target 1000 (target_at 0 0 1000) servo_tight)"

text \<open>A servo built with \<^verbatim>\<open>max_output=10\<close> and \<^verbatim>\<open>min_output=50\<close>, after \<^verbatim>\<open>set_target(100)\<close> at position 0.\<close>

definition servo_inverted :: servo where
  "servo_inverted =
     Servo_attrs fresh_bridge (default_args\<lparr>arg_max_output := 10, arg_min_output := 50\<rparr>)"

definition near_inverted :: servo where
  "near_inverted = snd (set_target 100 (target_at 0 0 1000) servo_inverted)"

text \<open>A servo built with \<^verbatim>\<open>Ki=-0.001\<close>, after \<^verbatim>\<open>set_target(100)\<close> at position 0.\<close>

definition servo_negative_Ki :: servo where
  "servo_negative_Ki = Servo_attrs fresh_bridge (default_args\<lparr>arg_Ki := - (1 / 1000)\<rparr>)"

definition near_negative_Ki :: servo where
  "near_negative_Ki = snd (set_target 100 (target_at 0 0 1000) servo_negative_Ki)"

text \<open>A servo that uses the peel motor, after \<^verbatim>\<open>set_target(-100)\<close> at position 300 and clock 0 (scenario B of the specification, with the default ramp of 200 ticks), and the same after a tick at position -510 and clock 500 ms: phase 1 is complete and the peel motor is still running.\<close>

definition servo_peel :: servo where
  "servo_peel = Servo_attrs fresh_bridge (default_args\<lparr>arg_peel_enable := True\<rparr>)"

definition backing :: servo where
  "backing = snd (set_target (- 100) (target_at 300 0 1000) servo_peel)"

definition backed :: servo where
  "backed = snd (update (tick_at (- 510) 500 501000) backing)"

text \<open>The bound of the anti-windup clamp, and the invariant that the integral is within
  it (for a \<^verbatim>\<open>max_output\<close> that is not negative, as the constructor leaves it).\<close>

definition integral_bound :: "servo \<Rightarrow> real" where
  "integral_bound s = (if Ki s \<noteq> 0 then max_output s / \<bar>Ki s\<bar> else max_output s)"

definition clamped :: "servo \<Rightarrow> bool" where
  "clamped s = (0 \<le> max_output s \<and> \<bar>integral s\<bar> \<le> integral_bound s)"

text \<open>The calls a scheduler makes on a servo, and a run of them from first to last; a
  call that raises leaves the servo in the state it had reached.\<close>

datatype command = SetTarget int target_env | Update tick_env | Stop | Enable bool

fun exec :: "command \<Rightarrow> servo \<Rightarrow> flow \<times> servo" where
  "exec (SetTarget target_position e) s = set_target target_position e s"
| "exec (Update e) s = update e s"
| "exec Stop s = stop s"
| "exec (Enable state) s = enable state s"

fun run_commands :: "command list \<Rightarrow> servo \<Rightarrow> servo" where
  "run_commands [] s = s"
| "run_commands (c # cs) s = run_commands cs (snd (exec c s))"

text \<open>A drive command within the limits \<open>lo\<close> and \<open>hi\<close>: zero, or of a magnitude from
  \<open>lo\<close> to \<open>hi\<close>. And a servo with these limits whose bridge has received, since the
  history \<open>c0\<close>, only drive commands within them.\<close>

definition legal :: "real \<Rightarrow> real \<Rightarrow> real \<Rightarrow> bool" where
  "legal lo hi v = (v = 0 \<or> (lo \<le> \<bar>v\<bar> \<and> \<bar>v\<bar> \<le> hi))"

definition sent_legal :: "real \<Rightarrow> real \<Rightarrow> call list \<Rightarrow> servo \<Rightarrow> bool" where
  "sent_legal lo hi c0 s =
     (min_output s = lo \<and> max_output s = hi
      \<and> (\<exists>cs. calls (drives s) = c0 @ cs \<and> list_all (legal lo hi) (drive_cmds cs)))"

text \<open>A forward leg in progress: the bridge is enabled, the move is not finished, and
  the servo is moving forward without waiting for the peel motor.\<close>

definition forward_leg :: "servo \<Rightarrow> bool" where
  "forward_leg s =
     (enabled (drives s) \<and> \<not> target_reached s \<and> current_movement_is_forward s
      \<and> \<not> waiting_for_peel_idle_phase1 s)"

text \<open>What the constructor's \<^verbatim>\<open>abs()\<close> calls and its clamp of the taper leave true of the
  settings; no method writes these attributes afterwards.\<close>

definition configured :: "servo \<Rightarrow> bool" where
  "configured s =
     (0 \<le> max_output s \<and> 0 \<le> min_output s \<and> 0 \<le> backlash_takeup s \<and> 0 \<le> tolerance s
      \<and> 0 \<le> ramp_ticks s \<and> 0 \<le> ramp_taper_percent s \<and> ramp_taper_percent s \<le> 100)"

section \<open>The bridge's commands\<close>

lemma peel_set_zero:
  "peel_set 0 None False d = (None, snd (peel_set 0 None False d))"
  by (simp add: peel_set_def motor_set_def Let_def)

lemma calls_peel_set: "calls (snd (peel_set v b a d)) = calls d @ [PeelSet v]"
  by (simp add: peel_set_def Let_def split: option.splits sum.splits prod.splits)

lemma enabled_peel_set: "enabled (snd (peel_set v b a d)) = enabled d"
  by (simp add: peel_set_def Let_def split: option.splits sum.splits prod.splits)

lemma calls_drive_set: "calls (snd (drive_set v b a d)) = calls d @ [DriveSet v]"
  by (simp add: drive_set_def Let_def split: option.splits sum.splits prod.splits)

lemma enabled_drive_set: "enabled (snd (drive_set v b a d)) = enabled d"
  by (simp add: drive_set_def Let_def split: option.splits sum.splits prod.splits)

lemma drive_set_zero: "fst (drive_set 0 None False d) = None"
  by (simp add: drive_set_def motor_set_def Let_def)

text \<open>A speed within \<open>-100..100\<close> is never refused.\<close>

lemma motor_set_in_range:
  "\<bar>v\<bar> \<le> 100 \<Longrightarrow> motor_set v None False en ab pm \<noteq> Some (Inl e)"
  by (auto simp add: motor_set_def set_motor_pwm_def Let_def)

lemma peel_set_in_range:
  "\<bar>v\<bar> \<le> 100 \<Longrightarrow> fst (peel_set v None False d) = None"
  using motor_set_in_range [of v "enabled d" "auto_brake d" "peel_pwm_min d"]
  by (auto simp add: peel_set_def Let_def split: option.splits sum.splits prod.splits)

section \<open>The peel motor's \<^verbatim>\<open>run\<close>\<close>

lemma set_state_stopped:
  "set_state STATE_STOPPED sp (p, d) =
     (None,
      p\<lparr>current_state := STATE_STOPPED, current_actual_speed := 0,
        run_start_time_ms := 0, target_run_time_ms := 0\<rparr>,
      snd (peel_set 0 None False d))"
proof -
  obtain d' where "peel_set 0 None False d = (None, d')"
    using peel_set_zero [of d] by blast
  then show ?thesis
    by (simp add: set_state_def Let_def)
qed

lemma set_state_running:
  assumes "st \<noteq> STATE_STOPPED" "\<bar>v\<bar> \<le> 100"
      and "current_state p \<noteq> st \<or> current_actual_speed p \<noteq> v"
  shows "set_state st (Some v) (p, d) =
           (None, p\<lparr>current_state := st, current_actual_speed := v\<rparr>,
            snd (peel_set (if st = STATE_FORWARD then v else - v) None False d))"
proof -
  have a: "fst (peel_set v None False d) = None" "fst (peel_set (- v) None False d) = None"
    using assms(2) by (simp_all add: peel_set_in_range)
  show ?thesis
    using assms(1,3) a by (cases st) (auto simp add: set_state_def Let_def split: prod.splits)
qed

lemma scenario_c_eq:
  "scenario_c =
     (\<lparr>default_speed = 75, default_time_ms = 1000, current_state = STATE_FORWARD,
       target_run_time_ms = 1000, run_start_time_ms = 0, current_actual_speed = 75\<rparr>,
      \<lparr>enabled = True, auto_brake = False, drive_pwm_min = 65, peel_pwm_min = 65,
       peel1_pwm = 91, peel2_pwm = 0, drive1_pwm = 0, drive2_pwm = 0, calls = [PeelSet 75]\<rparr>)"
  by (simp add: scenario_c_def run_def state_map_def run_time_of_def actual_speed_of_def
      PeelMotor_init_def bridge_on_def fresh_bridge_def hbridge_enable_def set_state_def
      peel_set_def motor_set_def set_motor_pwm_def py_int_def Let_def)

text \<open>
  Claim C8, as the code has it. Take a call of \<^verbatim>\<open>run\<close> with direction 1 or -1 and a
  run time above zero. If the motor is already in that direction's state at the speed the
  call stands for, the call writes the two timer attributes and nothing else: state, speed
  and bridge are the same and no command is sent. If the state or the speed differs (and
  the speed is one the bridge accepts, which a speed given in the call always is), the
  call sends exactly one \<^verbatim>\<open>peel_set\<close> with the signed new speed, takes the new state and
  speed and restarts the timer.
\<close>

theorem run_same_state_resets_timer_only:
  assumes "state_map direction_int = Some st" and "st \<noteq> STATE_STOPPED"
      and "0 < run_time_of p time_ms"
  shows "(current_state p = st \<and> current_actual_speed p = actual_speed_of p speed \<longrightarrow>
            run direction_int time_ms speed now_ms (p, d) =
              (None,
               p\<lparr>run_start_time_ms := now_ms, target_run_time_ms := run_time_of p time_ms\<rparr>,
               d))
       \<and> ((current_state p \<noteq> st \<or> current_actual_speed p \<noteq> actual_speed_of p speed)
            \<and> \<bar>actual_speed_of p speed\<bar> \<le> 100 \<longrightarrow>
            (\<exists>d'. run direction_int time_ms speed now_ms (p, d) =
                (None,
                 p\<lparr>current_state := st, current_actual_speed := actual_speed_of p speed,
                   run_start_time_ms := now_ms, target_run_time_ms := run_time_of p time_ms\<rparr>,
                 d')
              \<and> calls d' =
                  calls d @ [PeelSet (if st = STATE_FORWARD then actual_speed_of p speed
                                      else - actual_speed_of p speed)]))"
proof (intro conjI impI)
  assume "current_state p = st \<and> current_actual_speed p = actual_speed_of p speed"
  then show "run direction_int time_ms speed now_ms (p, d) =
              (None,
               p\<lparr>run_start_time_ms := now_ms, target_run_time_ms := run_time_of p time_ms\<rparr>,
               d)"
    using assms by (simp add: run_def Let_def)
next
  assume h: "(current_state p \<noteq> st \<or> current_actual_speed p \<noteq> actual_speed_of p speed)
            \<and> \<bar>actual_speed_of p speed\<bar> \<le> 100"
  have "set_state st (Some (actual_speed_of p speed)) (p, d) =
           (None, p\<lparr>current_state := st, current_actual_speed := actual_speed_of p speed\<rparr>,
            snd (peel_set (if st = STATE_FORWARD then actual_speed_of p speed
                           else - actual_speed_of p speed) None False d))"
    using set_state_running [of st "actual_speed_of p speed" p d] assms(2) h by blast
  then show "\<exists>d'. run direction_int time_ms speed now_ms (p, d) =
                (None,
                 p\<lparr>current_state := st, current_actual_speed := actual_speed_of p speed,
                   run_start_time_ms := now_ms, target_run_time_ms := run_time_of p time_ms\<rparr>,
                 d')
              \<and> calls d' =
                  calls d @ [PeelSet (if st = STATE_FORWARD then actual_speed_of p speed
                                      else - actual_speed_of p speed)]"
    using assms h by (auto simp add: run_def Let_def calls_peel_set)
qed

text \<open>Scenario C: \<^verbatim>\<open>run(1, 500, 75)\<close> at clock reading 400, while running forward at 75.\<close>

theorem run_same_state_resets_timer_only_witness:
  "state_map 1 = Some STATE_FORWARD \<and> STATE_FORWARD \<noteq> STATE_STOPPED
   \<and> 0 < run_time_of (fst scenario_c) (Some 500)
   \<and> current_state (fst scenario_c) = STATE_FORWARD
   \<and> current_actual_speed (fst scenario_c) = actual_speed_of (fst scenario_c) (Some 75)
   \<and> run 1 (Some 500) (Some 75) 400 scenario_c =
        (None, (fst scenario_c)\<lparr>run_start_time_ms := 400, target_run_time_ms := 500\<rparr>,
         snd scenario_c)"
proof -
  have a: "state_map 1 = Some STATE_FORWARD" by (simp add: state_map_def)
  have b: "0 < run_time_of (fst scenario_c) (Some 500)" by (simp add: run_time_of_def)
  have c: "current_state (fst scenario_c) = STATE_FORWARD
           \<and> current_actual_speed (fst scenario_c) = actual_speed_of (fst scenario_c) (Some 75)"
    by (simp add: scenario_c_eq actual_speed_of_def)
  show ?thesis
    using run_same_state_resets_timer_only [OF a _ b, of "Some 75" 400 "snd scenario_c"] a b c
    by (simp add: run_time_of_def)
qed

text \<open>Claim C8 as the specification words it fails for a run time of zero: the call
  \<^verbatim>\<open>run(1, 0, 75)\<close>, in the direction and at the speed of the running state, sends
  \<^verbatim>\<open>peel_set(0)\<close> and stops the motor.\<close>

theorem run_same_state_zero_time_counterexample:
  "current_state (fst scenario_c) = STATE_FORWARD
   \<and> current_actual_speed (fst scenario_c) = 75
   \<and> state_map 1 = Some STATE_FORWARD
   \<and> actual_speed_of (fst scenario_c) (Some 75) = 75
   \<and> calls (snd (snd (run 1 (Some 0) (Some 75) 500 scenario_c)))
       = calls (snd scenario_c) @ [PeelSet 0]
   \<and> current_state (fst (snd (run 1 (Some 0) (Some 75) 500 scenario_c))) = STATE_STOPPED"
  by (simp add: scenario_c_eq run_def state_map_def run_time_of_def actual_speed_of_def
      set_state_def peel_set_def motor_set_def Let_def)

text \<open>
  Claim C9. A call \<^verbatim>\<open>run(direction, 0, speed)\<close> with direction 1 or -1 (the two non-zero
  directions of \<^verbatim>\<open>state_map\<close>) is an immediate stop: it does not raise, the state becomes
  \<^verbatim>\<open>STATE_STOPPED\<close>, speed and both timer attributes become 0, and one \<^verbatim>\<open>peel_set(0)\<close>
  is sent to the bridge, whatever the state was before.
\<close>

theorem run_zero_time_stops:
  assumes "direction_int = 1 \<or> direction_int = - 1"
  shows "\<exists>d'. run direction_int (Some 0) speed now_ms (p, d) =
           (None,
            p\<lparr>current_state := STATE_STOPPED, current_actual_speed := 0,
              run_start_time_ms := 0, target_run_time_ms := 0\<rparr>, d')
          \<and> calls d' = calls d @ [PeelSet 0] \<and> enabled d' = enabled d"
  using assms
  by (auto simp add: run_def state_map_def run_time_of_def Let_def set_state_stopped
      calls_peel_set enabled_peel_set)

theorem run_zero_time_stops_witness:
  "((1::int) = 1 \<or> (1::int) = - 1)
   \<and> current_state (fst scenario_c) = STATE_FORWARD
   \<and> (\<exists>d'. run 1 (Some 0) (Some 75) 500 scenario_c =
           (None,
            (fst scenario_c)\<lparr>current_state := STATE_STOPPED, current_actual_speed := 0,
              run_start_time_ms := 0, target_run_time_ms := 0\<rparr>, d')
          \<and> calls d' = calls (snd scenario_c) @ [PeelSet 0]
          \<and> enabled d' = enabled (snd scenario_c))"
  using run_zero_time_stops [of 1 "Some 75" 500 "fst scenario_c" "snd scenario_c"]
  by (simp add: scenario_c_eq)

section \<open>Sequencing and the servo's use of the bridge\<close>

lemma drive_cmds_append: "drive_cmds (xs @ ys) = drive_cmds xs @ drive_cmds ys"
  by (induction xs rule: drive_cmds.induct) simp_all

lemma seq_preserves:
  assumes "\<And>s. P s \<Longrightarrow> P (snd (f s))" and "\<And>s. P s \<Longrightarrow> P (snd (g s))" and "P s"
  shows "P (snd (seq f g s))"
proof (cases "f s")
  case (Pair r s')
  have "P s'" using assms(1) [OF assms(3)] Pair by simp
  then show ?thesis
    using assms(2) [of s'] Pair by (cases r) (simp_all add: seq_def)
qed

lemma servo_drive_set_zero:
  "servo_drive_set 0 s = (Next, s\<lparr>drives := snd (drive_set 0 None False (drives s))\<rparr>)"
  using drive_set_zero [of "drives s"]
  by (cases "drive_set 0 None False (drives s)") (simp add: servo_drive_set_def)

lemma drives_servo_drive_set:
  "drives (snd (servo_drive_set v s)) = snd (drive_set v None False (drives s))"
  by (simp add: servo_drive_set_def split: prod.splits option.splits)

lemma enabled_peel_set_eq: "peel_set v b a d = (r, d') \<Longrightarrow> enabled d' = enabled d"
  using enabled_peel_set [of v b a d] by simp

lemma enabled_set_state: "enabled (snd (snd (set_state st sp (p, d)))) = enabled d"
  by (cases st) (auto simp add: set_state_def Let_def split: prod.splits option.splits
      dest: enabled_peel_set_eq)

lemma enabled_set_state_eq:
  "set_state st sp (p, d) = (r, p', d') \<Longrightarrow> enabled d' = enabled d"
  using enabled_set_state [of st sp p d] by simp

lemma enabled_run: "enabled (snd (snd (run dir t sp now (p, d)))) = enabled d"
  by (auto simp add: run_def Let_def enabled_set_state split: prod.splits option.splits
      dest: enabled_set_state_eq)

lemma enabled_servo_peel_run:
  "enabled (drives (snd (servo_peel_run dir t sp now s))) = enabled (drives s)"
  using enabled_run [of dir t sp now "peel_motor s" "drives s"]
  by (auto simp add: servo_peel_run_def split: prod.splits option.splits)

lemma enabled_servo_drive_set:
  "enabled (drives (snd (servo_drive_set v s))) = enabled (drives s)"
  by (simp add: drives_servo_drive_set enabled_drive_set)

lemma enabled_t_direction:
  "enabled (drives s) \<Longrightarrow> enabled (drives (snd (t_direction t e s)))"
  by (simp add: t_direction_def Let_def peel_reverse_def peel_forward_def peel_stop_def
      enabled_servo_peel_run)

lemma enabled_t_reset: "enabled (drives s) \<Longrightarrow> enabled (drives (snd (t_reset e s)))"
  by (simp add: t_reset_def)

lemma enabled_t_tolerance:
  assumes "enabled (drives s)"
  shows "enabled (drives (snd (t_tolerance e s)))"
proof -
  let ?P = "\<lambda>s. enabled (drives s)"
  have a: "\<And>s. ?P s \<Longrightarrow> ?P (snd (servo_drive_set 0 (s\<lparr>target_reached := True\<rparr>)))"
    by (simp add: enabled_servo_drive_set)
  have b: "\<And>s. ?P s \<Longrightarrow>
             ?P (snd (if setpoint s = target_pos e \<and> peel_motor_enabled_by_servo s
                      then peel_stop s else (Next, s)))"
    by (simp add: peel_stop_def enabled_servo_peel_run)
  have c: "\<And>s. ?P s \<Longrightarrow>
             ?P (snd (Next, if backlash_active s then s\<lparr>backlash_active := False\<rparr> else s))"
    by simp
  show ?thesis
    unfolding t_tolerance_def
    using assms
    by (auto intro!: seq_preserves [where P = ?P] a b c)
qed

text \<open>
  Claim C10. After \<^verbatim>\<open>set_target\<close>, whatever the state before (also after
  \<^verbatim>\<open>enable(False)\<close> or \<^verbatim>\<open>disable()\<close>) and whichever way the call goes, the bridge is
  enabled: the call starts with \<^verbatim>\<open>enable(True)\<close> and nothing after it disables the
  bridge.
\<close>

theorem set_target_enables:
  "enabled (drives (snd (set_target target_position e s)))"
proof -
  let ?P = "\<lambda>s. enabled (drives s)"
  have en: "?P (snd (enable True s))"
    by (simp add: enable_def hbridge_enable_def)
  have rest: "\<And>s. ?P s \<Longrightarrow>
      ?P (snd (seq (t_direction target_position e) (seq (t_reset e) (t_tolerance e)) s))"
    by (intro seq_preserves [where P = ?P] enabled_t_direction enabled_t_reset
        enabled_t_tolerance)
  have "fst (enable True s) = Next" by (simp add: enable_def)
  then show ?thesis
    using rest [OF en] by (cases "enable True s") (simp add: set_target_def seq_def)
qed

lemma drive_cmds_peel_set:
  "drive_cmds (calls (snd (peel_set v b a d))) = drive_cmds (calls d)"
  by (simp add: calls_peel_set drive_cmds_append)

lemma drive_cmds_drive_set:
  "drive_cmds (calls (snd (drive_set v b a d))) = drive_cmds (calls d) @ [v]"
  by (simp add: calls_drive_set drive_cmds_append)

text \<open>The peel motor's timer and a stop never raise and send no drive command.\<close>

lemma peel_update_quiet:
  "\<exists>p' d'. peel_update now_ms (p, d) = (None, p', d')
      \<and> drive_cmds (calls d') = drive_cmds (calls d) \<and> enabled d' = enabled d"
  by (simp add: peel_update_def Let_def set_state_stopped drive_cmds_peel_set enabled_peel_set)


lemma u_peel_quiet:
  "\<exists>p' d'. u_peel e s = (Next, s\<lparr>drives := d', peel_motor := p'\<rparr>)
      \<and> drive_cmds (calls d') = drive_cmds (calls (drives s))
      \<and> enabled d' = enabled (drives s)"
proof (cases "peel_motor_enabled_by_servo s")
  case True
  obtain p' d' where "peel_update (ms_peel_update e) (peel_motor s, drives s) = (None, p', d')"
    and "drive_cmds (calls d') = drive_cmds (calls (drives s))"
    and "enabled d' = enabled (drives s)"
    using peel_update_quiet [of "ms_peel_update e" "peel_motor s" "drives s"] by blast
  then show ?thesis
    using True
    by (intro exI [of _ p'] exI [of _ d']) (simp add: u_peel_def servo_peel_update_def)
next
  case False
  have "s = s\<lparr>drives := drives s, peel_motor := peel_motor s\<rparr>" by simp
  then show ?thesis
    using False unfolding u_peel_def by (metis (full_types))
qed



section \<open>The forward leg\<close>

lemma seq_Next: "f s = (Next, s') \<Longrightarrow> seq f g s = g s'"
  by (simp add: seq_def)

lemma seq_Return: "f s = (Return b, s') \<Longrightarrow> seq f g s = (Return b, s')"
  by (simp add: seq_def)

lemma forward_prefix:
  assumes "forward_leg s"
  shows "seq u_disabled (seq u_idle (seq (u_wait e) (seq (u_phase1 e) (seq u_waiting k)))) s
           = k s"
proof -
  have 1: "u_disabled s = (Next, s)" using assms by (simp add: u_disabled_def forward_leg_def)
  have 2: "u_idle s = (Next, s)" using assms by (simp add: u_idle_def forward_leg_def)
  have 3: "u_wait e s = (Next, s)" using assms by (simp add: u_wait_def forward_leg_def)
  have 4: "u_phase1 e s = (Next, s)" using assms by (simp add: u_phase1_def forward_leg_def)
  have 5: "u_waiting s = (Next, s)" using assms by (simp add: u_waiting_def forward_leg_def)
  show ?thesis
    by (simp only: seq_Next [where f = u_disabled and s = s, OF 1]
        seq_Next [where f = u_idle and s = s, OF 2]
        seq_Next [where f = "u_wait e" and s = s, OF 3]
        seq_Next [where f = "u_phase1 e" and s = s, OF 4]
        seq_Next [where f = u_waiting and s = s, OF 5])
qed

lemma update_forward:
  assumes "forward_leg s"
  shows "\<exists>p' d'. update e s =
       seq (u_overshoot e) (seq (u_reached e) (u_control e)) (s\<lparr>drives := d', peel_motor := p'\<rparr>)
     \<and> drive_cmds (calls d') = drive_cmds (calls (drives s))
     \<and> enabled d' = enabled (drives s)"
proof -
  obtain p' d' where a: "u_peel e s = (Next, s\<lparr>drives := d', peel_motor := p'\<rparr>)"
    and b: "drive_cmds (calls d') = drive_cmds (calls (drives s))"
    and c: "enabled d' = enabled (drives s)"
    using u_peel_quiet [of e s] by blast
  have "forward_leg (s\<lparr>drives := d', peel_motor := p'\<rparr>)"
    using assms c by (simp add: forward_leg_def)
  then have "update e s =
       seq (u_overshoot e) (seq (u_reached e) (u_control e)) (s\<lparr>drives := d', peel_motor := p'\<rparr>)"
    unfolding update_def by (simp only: seq_Next [where f = "u_peel e" and s = s, OF a] forward_prefix)
  then show ?thesis using b c by blast
qed


lemma drive_cmds_servo_drive_set:
  "drive_cmds (calls (drives (snd (servo_drive_set v s)))) = drive_cmds (calls (drives s)) @ [v]"
  by (simp add: drives_servo_drive_set drive_cmds_drive_set)

lemma u_overshoot_fires:
  assumes "current_movement_is_forward s" and "encoder_pos e > setpoint s"
      and "\<bar>setpoint s - encoder_pos e\<bar> > tolerance s"
  shows "u_overshoot e s =
           (Return False,
            s\<lparr>drives := snd (drive_set 0 None False (drives s)),
              target_reached := True, backlash_active := False\<rparr>)"
  using assms
  by (cases "backlash_active s")
     (simp_all add: u_overshoot_def Let_def seq_def servo_drive_set_zero)

lemma u_overshoot_skips:
  assumes "\<not> (encoder_pos e > setpoint s \<and> \<bar>setpoint s - encoder_pos e\<bar> > tolerance s)"
  shows "u_overshoot e s = (Next, s)"
  using assms by (auto simp add: u_overshoot_def Let_def)

text \<open>
  Claim C3. On a tick of a forward leg at a position above the setpoint by more than
  the tolerance, \<^verbatim>\<open>update\<close> sends \<^verbatim>\<open>drive_set(0)\<close> and no other drive command, sets
  \<^verbatim>\<open>_target_reached\<close> and returns \<^verbatim>\<open>False\<close>. The setpoint stays, and the move counts
  as reached, so that later ticks are idle: no approach back to the setpoint follows.
\<close>

theorem update_overshoot_stops:
  assumes "forward_leg s"
      and "encoder_pos e > setpoint s"
      and "encoder_pos e - setpoint s > tolerance s"
  shows "fst (update e s) = Return False
       \<and> target_reached (snd (update e s))
       \<and> is_target_reached (snd (update e s))
       \<and> setpoint (snd (update e s)) = setpoint s
       \<and> drive_cmds (calls (drives (snd (update e s)))) = drive_cmds (calls (drives s)) @ [0]"
proof -
  obtain p' d' where u: "update e s =
       seq (u_overshoot e) (seq (u_reached e) (u_control e)) (s\<lparr>drives := d', peel_motor := p'\<rparr>)"
    and c: "drive_cmds (calls d') = drive_cmds (calls (drives s))"
    using update_forward [OF assms(1), of e] by blast
  let ?s1 = "s\<lparr>drives := d', peel_motor := p'\<rparr>"
  have far: "\<bar>setpoint ?s1 - encoder_pos e\<bar> > tolerance ?s1"
    using assms(2,3) by simp
  have fw: "current_movement_is_forward ?s1" "encoder_pos e > setpoint ?s1"
    using assms(1,2) by (simp_all add: forward_leg_def)
  have "update e s =
          (Return False,
            ?s1\<lparr>drives := snd (drive_set 0 None False (drives ?s1)),
              target_reached := True, backlash_active := False\<rparr>)"
    unfolding u
    by (rule seq_Return [where f = "u_overshoot e", OF u_overshoot_fires [OF fw far]])
  then show ?thesis
    using assms(1) c
    by (simp add: forward_leg_def is_target_reached_def drive_cmds_drive_set)
qed

lemma snd_servo_drive_set:
  "snd (servo_drive_set v s) = s\<lparr>drives := snd (drive_set v None False (drives s))\<rparr>"
proof (cases "drive_set v None False (drives s)")
  case (Pair r d)
  then show ?thesis by (cases r) (simp_all add: servo_drive_set_def)
qed

lemma snd_seq_const: "snd (seq f (\<lambda>s. (r, s)) s) = snd (f s)"
proof (cases "f s")
  case (Pair a b)
  then show ?thesis by (cases a) (simp_all add: seq_def)
qed

lemma snd_raise_case:
  "snd (snd (case x of (Raise e, s') \<Rightarrow> (Some e, v, s') | (_, s') \<Rightarrow> (None, v, s'))) = snd x"
proof (cases x)
  case (Pair a b)
  then show ?thesis by (cases a) simp_all
qed

lemma snd_pid_step:
  "\<exists>i d. snd (pid_step e err s) = s\<lparr>integral := i, derivative := d\<rparr>"
  unfolding pid_step_def Let_def by (simp only: snd_conv) blast

lemma stable_count_u_output: "stable_count (snd (snd (u_output e s))) = stable_count s"
proof -
  obtain i d where p: "snd (pid_step e (setpoint s - encoder_pos e) s) = s\<lparr>integral := i, derivative := d\<rparr>"
    using snd_pid_step by blast
  have c: "stable_count (snd (snd (case pid_step e (setpoint s - encoder_pos e) s of
              (output, s') \<Rightarrow> (None :: error option, output, s')))) = stable_count s"
    using p by (cases "pid_step e (setpoint s - encoder_pos e) s") simp
  show ?thesis
    unfolding u_output_def Let_def
    by (simp only: snd_raise_case c snd_servo_drive_set snd_conv if_distrib [of "\<lambda>x. stable_count (snd (snd x))"] if_cancel)
       simp
qed

lemma stable_count_u_control: "stable_count (snd (u_control e s)) = stable_count s"
proof -
  obtain r out s' where o: "u_output e s = (r, out, s')"
    by (cases "u_output e s") auto
  have b: "stable_count s' = stable_count s"
    using stable_count_u_output [of e s] o by simp
  show ?thesis
  proof (cases r)
    case None
    define s1 where "s1 = s'\<lparr>previous_error := setpoint s - encoder_pos e, last_time_us := us_end e\<rparr>"
    define v where "v = max (min out (max_output s1)) (- max_output s1)"
    have u: "u_control e s = seq (servo_drive_set v) (\<lambda>s. (Return True, s)) s1"
      using o None by (simp add: u_control_def Let_def s1_def v_def)
    show ?thesis
      unfolding u snd_seq_const snd_servo_drive_set using b by (simp add: s1_def)
  next
    case (Some x)
    then show ?thesis using o b by (simp add: u_control_def)
  qed
qed

lemma u_reached_done:
  assumes "current_movement_is_forward s"
      and "\<bar>setpoint s - encoder_pos e\<bar> \<le> tolerance s"
      and "stable_count s + 1 \<ge> stable_updates s"
  shows "u_reached e s =
           (Return False,
            s\<lparr>stable_count := stable_count s + 1, target_reached := True,
              drives := snd (drive_set 0 None False (drives s)),
              backlash_active := False\<rparr>)"
  using assms
  by (cases "backlash_active s")
     (simp_all add: u_reached_def Let_def seq_def servo_drive_set_zero)

lemma u_reached_hold:
  assumes "current_movement_is_forward s"
      and "\<bar>setpoint s - encoder_pos e\<bar> \<le> tolerance s"
      and "stable_count s + 1 < stable_updates s"
  shows "u_reached e s =
           (Next,
            s\<lparr>stable_count := stable_count s + 1,
              drives := snd (drive_set 0 None False (drives s))\<rparr>)"
  using assms
  by (simp add: u_reached_def Let_def servo_drive_set_zero)

lemma u_reached_far:
  assumes "\<bar>setpoint s - encoder_pos e\<bar> > tolerance s"
  shows "u_reached e s = (Next, s\<lparr>stable_count := 0\<rparr>)"
  using assms by (simp add: u_reached_def Let_def)

lemma u_control_in_tolerance:
  assumes "current_movement_is_forward s"
      and "\<bar>setpoint s - encoder_pos e\<bar> \<le> tolerance s"
      and "tolerance s \<le> ramp_ticks s" and "0 \<le> max_output s"
  shows "u_control e s =
           (Return True,
            s\<lparr>drives := snd (drive_set 0 None False (snd (drive_set 0 None False (drives s)))),
              previous_error := setpoint s - encoder_pos e, last_time_us := us_end e\<rparr>)"
proof -
  have o: "u_output e s = (None, 0, s\<lparr>drives := snd (drive_set 0 None False (drives s))\<rparr>)"
    using assms by (simp add: u_output_def Let_def servo_drive_set_zero)
  show ?thesis
    using assms(4) by (simp add: u_control_def o Let_def seq_def servo_drive_set_zero)
qed



text \<open>
  Claim C4, as the code has it. On a tick of a forward leg:
  \<^item> within tolerance of the setpoint the stable counter goes up by one;
  \<^item> if it thereby reaches \<^verbatim>\<open>stable_updates\<close>, the tick sends \<^verbatim>\<open>drive_set(0)\<close>, sets
    \<^verbatim>\<open>_target_reached\<close> and returns \<^verbatim>\<open>False\<close>;
  \<^item> if it does not, and the tolerance is not above \<^verbatim>\<open>ramp_ticks\<close>, every drive
    command of the tick is zero, the move stays unfinished and the tick returns
    \<^verbatim>\<open>True\<close>;
  \<^item> short of the setpoint by more than the tolerance, the stable counter is reset
    to 0.
  Nothing is said of the counter on a tick beyond the setpoint by more than the
  tolerance (claim C3: the move ends there), nor of the drive when the tolerance
  exceeds \<^verbatim>\<open>ramp_ticks\<close>.
\<close>

theorem update_in_tolerance:
  assumes "forward_leg s" and "configured s"
  shows "(\<bar>setpoint s - encoder_pos e\<bar> \<le> tolerance s \<longrightarrow>
            stable_count (snd (update e s)) = stable_count s + 1)
       \<and> (\<bar>setpoint s - encoder_pos e\<bar> \<le> tolerance s
            \<and> stable_count s + 1 \<ge> stable_updates s \<longrightarrow>
            fst (update e s) = Return False \<and> target_reached (snd (update e s))
            \<and> drive_cmds (calls (drives (snd (update e s))))
                = drive_cmds (calls (drives s)) @ [0])
       \<and> (\<bar>setpoint s - encoder_pos e\<bar> \<le> tolerance s
            \<and> stable_count s + 1 < stable_updates s \<and> tolerance s \<le> ramp_ticks s \<longrightarrow>
            fst (update e s) = Return True \<and> \<not> target_reached (snd (update e s))
            \<and> drive_cmds (calls (drives (snd (update e s))))
                = drive_cmds (calls (drives s)) @ [0, 0, 0])
       \<and> (setpoint s - encoder_pos e > tolerance s \<longrightarrow>
            stable_count (snd (update e s)) = 0)"
proof -
  obtain p' d' where u0: "update e s =
       seq (u_overshoot e) (seq (u_reached e) (u_control e)) (s\<lparr>drives := d', peel_motor := p'\<rparr>)"
    and c0: "drive_cmds (calls d') = drive_cmds (calls (drives s))"
    using update_forward [OF assms(1), of e] by blast
  define s1 where "s1 = s\<lparr>drives := d', peel_motor := p'\<rparr>"
  have u: "update e s = seq (u_overshoot e) (seq (u_reached e) (u_control e)) s1"
    using u0 by (simp add: s1_def)
  have c: "drive_cmds (calls (drives s1)) = drive_cmds (calls (drives s))"
    using c0 by (simp add: s1_def)
  have same: "setpoint s1 = setpoint s" "tolerance s1 = tolerance s"
    "stable_count s1 = stable_count s" "stable_updates s1 = stable_updates s"
    "ramp_ticks s1 = ramp_ticks s" "max_output s1 = max_output s"
    "target_reached s1 = target_reached s"
    "current_movement_is_forward s1 = current_movement_is_forward s"
    by (simp_all add: s1_def)
  have fw: "current_movement_is_forward s1" and nr: "\<not> target_reached s1"
    using assms(1) same by (simp_all add: forward_leg_def)
  have tol: "0 \<le> tolerance s" and mo: "0 \<le> max_output s1"
    using assms(2) same by (simp_all add: configured_def)
  have pre: "update e s = seq (u_reached e) (u_control e) s1"
    if "\<not> (encoder_pos e > setpoint s \<and> \<bar>setpoint s - encoder_pos e\<bar> > tolerance s)"
  proof -
    have "u_overshoot e s1 = (Next, s1)"
      using that same by (intro u_overshoot_skips) simp
    then show ?thesis
      unfolding u by (rule seq_Next)
  qed
  have fin: "update e s = (Return False,
            s1\<lparr>stable_count := stable_count s1 + 1, target_reached := True,
              drives := snd (drive_set 0 None False (drives s1)),
              backlash_active := False\<rparr>)"
    if t: "\<bar>setpoint s - encoder_pos e\<bar> \<le> tolerance s"
      and r: "stable_count s + 1 \<ge> stable_updates s"
  proof -
    have "u_reached e s1 = (Return False,
            s1\<lparr>stable_count := stable_count s1 + 1, target_reached := True,
              drives := snd (drive_set 0 None False (drives s1)),
              backlash_active := False\<rparr>)"
      using t r same by (intro u_reached_done fw) simp_all
    then have "seq (u_reached e) (u_control e) s1 = (Return False,
            s1\<lparr>stable_count := stable_count s1 + 1, target_reached := True,
              drives := snd (drive_set 0 None False (drives s1)),
              backlash_active := False\<rparr>)"
      by (rule seq_Return)
    then show ?thesis using pre t by simp
  qed
  define s2 where "s2 = s1\<lparr>stable_count := stable_count s1 + 1,
              drives := snd (drive_set 0 None False (drives s1))\<rparr>"
  have hold: "update e s = u_control e s2"
    if t: "\<bar>setpoint s - encoder_pos e\<bar> \<le> tolerance s"
      and r: "stable_count s + 1 < stable_updates s"
  proof -
    have "u_reached e s1 = (Next, s2)"
      unfolding s2_def using t r same by (intro u_reached_hold fw) simp_all
    then have "seq (u_reached e) (u_control e) s1 = u_control e s2"
      by (rule seq_Next)
    then show ?thesis using pre t by simp
  qed
  have A: "stable_count (snd (update e s)) = stable_count s + 1"
    if t: "\<bar>setpoint s - encoder_pos e\<bar> \<le> tolerance s"
  proof (cases "stable_count s + 1 \<ge> stable_updates s")
    case True
    show ?thesis unfolding fin [OF t True] using same by simp
  next
    case False
    then have "update e s = u_control e s2" using hold [OF t] by simp
    then show ?thesis using same by (simp add: stable_count_u_control s2_def)
  qed
  have B: "fst (update e s) = Return False \<and> target_reached (snd (update e s))
            \<and> drive_cmds (calls (drives (snd (update e s))))
                = drive_cmds (calls (drives s)) @ [0]"
    if t: "\<bar>setpoint s - encoder_pos e\<bar> \<le> tolerance s"
      and r: "stable_count s + 1 \<ge> stable_updates s"
    unfolding fin [OF t r] using c by (simp add: drive_cmds_drive_set)
  have C: "fst (update e s) = Return True \<and> \<not> target_reached (snd (update e s))
            \<and> drive_cmds (calls (drives (snd (update e s))))
                = drive_cmds (calls (drives s)) @ [0, 0, 0]"
    if t: "\<bar>setpoint s - encoder_pos e\<bar> \<le> tolerance s"
      and r: "stable_count s + 1 < stable_updates s" and q: "tolerance s \<le> ramp_ticks s"
  proof -
    have same2: "setpoint s2 = setpoint s" "tolerance s2 = tolerance s"
      "ramp_ticks s2 = ramp_ticks s" "max_output s2 = max_output s1"
      "current_movement_is_forward s2" "\<not> target_reached s2"
      using same fw nr by (simp_all add: s2_def)
    have c2: "drive_cmds (calls (drives s2)) = drive_cmds (calls (drives s)) @ [0]"
      using c by (simp add: s2_def drive_cmds_drive_set)
    have 2: "u_control e s2 =
           (Return True,
            s2\<lparr>drives := snd (drive_set 0 None False (snd (drive_set 0 None False (drives s2)))),
              previous_error := setpoint s2 - encoder_pos e, last_time_us := us_end e\<rparr>)"
      using t q mo same2 by (intro u_control_in_tolerance) simp_all
    show ?thesis
      unfolding hold [OF t r] 2 using c2 same2 by (simp add: drive_cmds_drive_set)
  qed
  have D: "stable_count (snd (update e s)) = 0"
    if "setpoint s - encoder_pos e > tolerance s"
  proof -
    have far: "\<bar>setpoint s1 - encoder_pos e\<bar> > tolerance s1"
      using that same by simp
    have "\<not> (encoder_pos e > setpoint s \<and> \<bar>setpoint s - encoder_pos e\<bar> > tolerance s)"
      using that tol by linarith
    then have "update e s = seq (u_reached e) (u_control e) s1" by (rule pre)
    also have "\<dots> = u_control e (s1\<lparr>stable_count := 0\<rparr>)"
      by (rule seq_Next [where f = "u_reached e", OF u_reached_far [OF far]])
    finally show ?thesis by (simp add: stable_count_u_control)
  qed
  show ?thesis using A B C D by blast
qed

section \<open>The statements at concrete moves\<close>

lemma moving_eq:
  "moving = servo_default
     \<lparr>drives := hbridge_enable True (drives servo_default), last_time_us := 1000, setpoint := 1000, original_setpoint := 1000,
      target_reached := False, previous_error := 1000,
      initial_error_at_move_start := 1000\<rparr>"
  by (simp add: moving_def set_target_def seq_def enable_def t_direction_def t_reset_def
      t_tolerance_def target_at_def servo_default_def Servo_attrs_def default_args_def
      Let_def)

lemma moving_forward_leg: "forward_leg moving \<and> configured moving"
  by (simp add: moving_eq forward_leg_def configured_def servo_default_def Servo_attrs_def
      default_args_def bridge_on_def hbridge_enable_def fresh_bridge_def)


theorem update_overshoot_stops_witness:
  "forward_leg moving \<and> encoder_pos (tick_at 1020 20 21000) > setpoint moving
   \<and> encoder_pos (tick_at 1020 20 21000) - setpoint moving > tolerance moving
   \<and> fst (update (tick_at 1020 20 21000) moving) = Return False
   \<and> target_reached (snd (update (tick_at 1020 20 21000) moving))
   \<and> drive_cmds (calls (drives (snd (update (tick_at 1020 20 21000) moving)))) = [0]"
proof -
  have a: "forward_leg moving" using moving_forward_leg by simp
  have b: "encoder_pos (tick_at 1020 20 21000) > setpoint moving"
    by (simp add: moving_eq tick_at_def)
  have c: "encoder_pos (tick_at 1020 20 21000) - setpoint moving > tolerance moving"
    by (simp add: moving_eq tick_at_def servo_default_def Servo_attrs_def default_args_def)
  have d: "drive_cmds (calls (drives moving)) = []"
    by (simp add: moving_eq servo_default_def Servo_attrs_def hbridge_enable_def
        fresh_bridge_def)
  show ?thesis
    using update_overshoot_stops [OF a b c] a b c d by simp
qed

theorem update_in_tolerance_witness:
  "forward_leg moving \<and> configured moving
   \<and> \<bar>setpoint moving - encoder_pos (tick_at 995 20 21000)\<bar> \<le> tolerance moving
   \<and> stable_count moving + 1 < stable_updates moving
   \<and> tolerance moving \<le> ramp_ticks moving
   \<and> stable_count (snd (update (tick_at 995 20 21000) moving)) = 1
   \<and> fst (update (tick_at 995 20 21000) moving) = Return True
   \<and> \<not> target_reached (snd (update (tick_at 995 20 21000) moving))
   \<and> drive_cmds (calls (drives (snd (update (tick_at 995 20 21000) moving)))) = [0, 0, 0]
   \<and> setpoint moving - encoder_pos (tick_at 500 20 21000) > tolerance moving
   \<and> stable_count (snd (update (tick_at 500 20 21000) moving)) = 0"
proof -
  have a: "forward_leg moving" "configured moving" using moving_forward_leg by simp_all
  have f: "setpoint moving = 1000" "tolerance moving = 10" "stable_count moving = 0"
    "stable_updates moving = 3" "ramp_ticks moving = 200"
    by (simp_all add: moving_eq servo_default_def Servo_attrs_def default_args_def)
  have d: "drive_cmds (calls (drives moving)) = []"
    by (simp add: moving_eq servo_default_def Servo_attrs_def hbridge_enable_def
        fresh_bridge_def)
  have p: "encoder_pos (tick_at 995 20 21000) = 995" "encoder_pos (tick_at 500 20 21000) = 500"
    by (simp_all add: tick_at_def)
  show ?thesis
    using update_in_tolerance [OF a, of "tick_at 995 20 21000"]
      update_in_tolerance [OF a, of "tick_at 500 20 21000"] a
    by (simp add: f d p)
qed

theorem set_target_enables_witness:
  "\<not> enabled (drives servo_default)
   \<and> enabled (drives (snd (set_target 1000 (target_at 0 0 1000) servo_default)))"
  using set_target_enables [of 1000 "target_at 0 0 1000" servo_default]
  by (simp add: servo_default_def Servo_attrs_def fresh_bridge_def)


section \<open>Evaluation at concrete states\<close>

lemmas step_defs = update_def seq_def u_peel_def u_disabled_def u_idle_def u_wait_def
  u_phase1_def u_phase1_stop_def u_phase2_def u_waiting_def u_overshoot_def u_reached_def
  u_control_def u_output_def pid_step_def reverse_output_def ramp_output_def
  servo_drive_set_def servo_peel_run_def servo_peel_update_def peel_forward_def
  peel_reverse_def peel_stop_def drive_set_def peel_set_def motor_set_def set_motor_pwm_def
  py_int_def is_idle_def run_def set_state_def state_map_def run_time_of_def
  actual_speed_of_def peel_update_def ticks_diff_def tick_at_def Let_def

lemma servo_default_eq:
  "servo_default =
     \<lparr>Kp = 5 / 100, Ki = 1 / 1000, Kd = 5 / 1000, pid_taper = 30,
          max_output = 80, min_output = 5,
          backlash_takeup = 200, tolerance = 10,
          ramp_ticks = 200, stable_updates = 3,
          ramp_taper_percent = 30,
          drives = \<lparr>enabled = False, auto_brake = True, drive_pwm_min = 65, peel_pwm_min = 65,
      peel1_pwm = 0, peel2_pwm = 0, drive1_pwm = 0, drive2_pwm = 0, calls = []\<rparr>,
          integral = 0, previous_error = 0, last_time_us = 0,
          setpoint = 0, original_setpoint = 0, target_reached = True, stable_count = 0,
          initial_encoder_pos_at_move_start = 0, initial_error_at_move_start = 0,
          backlash_active = False, waiting_for_peel_idle_phase1 = False,
          current_movement_is_forward = True,
          derivative = 0, derivative_alpha = 1 / 10,
          dynamic_scale_threshold = 100,
          peel_motor_enabled_by_servo = False,
          default_peel_speed = 75,
          default_peel_run_time_ms = 1000,
          peel_motor = \<lparr>default_speed = 75, default_time_ms = 1000, current_state = STATE_STOPPED,
      target_run_time_ms = 0, run_start_time_ms = 0, current_actual_speed = 0\<rparr>\<rparr>"
  by (simp add: servo_default_def Servo_attrs_def default_args_def fresh_bridge_def
      PeelMotor_init_def)

lemma held_eq:
  "held = moving\<lparr>stable_count := 1, previous_error := 5, last_time_us := 21000,
       drives := (drives moving)\<lparr>drive1_pwm := 100, drive2_pwm := 100,
          calls := [DriveSet 0, DriveSet 0, DriveSet 0]\<rparr>\<rparr>"
  by (simp add: held_def moving_eq servo_default_eq hbridge_enable_def step_defs)

lemma moving_fields:
  "moving =
     \<lparr>Kp = 5 / 100, Ki = 1 / 1000, Kd = 5 / 1000, pid_taper = 30,
          max_output = 80, min_output = 5,
          backlash_takeup = 200, tolerance = 10,
          ramp_ticks = 200, stable_updates = 3,
          ramp_taper_percent = 30,
          drives = \<lparr>enabled = True, auto_brake = True, drive_pwm_min = 65, peel_pwm_min = 65,
      peel1_pwm = 0, peel2_pwm = 0, drive1_pwm = 0, drive2_pwm = 0, calls = []\<rparr>,
          integral = 0, previous_error = 1000, last_time_us = 1000,
          setpoint = 1000, original_setpoint = 1000, target_reached = False, stable_count = 0,
          initial_encoder_pos_at_move_start = 0, initial_error_at_move_start = 1000,
          backlash_active = False, waiting_for_peel_idle_phase1 = False,
          current_movement_is_forward = True,
          derivative = 0, derivative_alpha = 1 / 10,
          dynamic_scale_threshold = 100,
          peel_motor_enabled_by_servo = False,
          default_peel_speed = 75,
          default_peel_run_time_ms = 1000,
          peel_motor = \<lparr>default_speed = 75, default_time_ms = 1000, current_state = STATE_STOPPED,
      target_run_time_ms = 0, run_start_time_ms = 0, current_actual_speed = 0\<rparr>\<rparr>"
  by (simp add: moving_eq servo_default_eq hbridge_enable_def)

lemmas target_defs = set_target_def seq_def enable_def t_direction_def t_reset_def
  t_tolerance_def target_at_def hbridge_enable_def servo_peel_run_def peel_forward_def
  peel_reverse_def peel_stop_def servo_drive_set_def drive_set_def peel_set_def motor_set_def
  set_motor_pwm_def py_int_def is_idle_def run_def set_state_def state_map_def
  run_time_of_def actual_speed_of_def Let_def

lemmas init_defs = Servo_attrs_def default_args_def fresh_bridge_def PeelMotor_init_def

lemma moving_tight_fields:
  "moving_tight = moving\<lparr>ramp_ticks := 5\<rparr>"
  by (simp add: moving_tight_def servo_tight_def moving_fields init_defs target_defs)

text \<open>Claim C4 as the specification words it fails twice. A tick beyond the setpoint
  by more than the tolerance ends the move and leaves the stable counter at 1. And with a
  tolerance above \<^verbatim>\<open>ramp_ticks\<close>, a tick within tolerance that is not the last of the
  run sends \<^verbatim>\<open>drive_set(0)\<close> and then the ramp's speed.\<close>

theorem update_in_tolerance_counterexample:
  "forward_leg held \<and> stable_count held = 1
   \<and> \<bar>setpoint held - encoder_pos (tick_at 1020 40 41000)\<bar> > tolerance held
   \<and> stable_count (snd (update (tick_at 1020 40 41000) held)) = 1
   \<and> forward_leg moving_tight
   \<and> \<bar>setpoint moving_tight - encoder_pos (tick_at 992 20 21000)\<bar> \<le> tolerance moving_tight
   \<and> stable_count moving_tight + 1 < stable_updates moving_tight
   \<and> fst (update (tick_at 992 20 21000) moving_tight) = Return True
   \<and> drive_cmds (calls (drives (snd (update (tick_at 992 20 21000) moving_tight))))
       = [0, 24 + 168 / 995]"
  by (simp add: held_eq moving_tight_fields moving_fields forward_leg_def step_defs)

lemma near_fields:
  "snd (set_target 100 (target_at 0 0 1000) (Servo_attrs fresh_bridge default_args)) =
     moving\<lparr>setpoint := 100, original_setpoint := 100, previous_error := 100,
       initial_error_at_move_start := 100\<rparr>"
  by (simp add: moving_fields init_defs target_defs)

lemma near_inverted_fields:
  "near_inverted =
     moving\<lparr>setpoint := 100, original_setpoint := 100, previous_error := 100,
       initial_error_at_move_start := 100, max_output := 10, min_output := 50\<rparr>"
  by (simp add: near_inverted_def servo_inverted_def moving_fields init_defs target_defs)

lemma near_negative_Ki_fields:
  "near_negative_Ki =
     moving\<lparr>setpoint := 100, original_setpoint := 100, previous_error := 100,
       initial_error_at_move_start := 100, Ki := - (1 / 1000)\<rparr>"
  by (simp add: near_negative_Ki_def servo_negative_Ki_def moving_fields init_defs target_defs)

text \<open>Claim C5 as the specification words it fails for a servo built with
  \<^verbatim>\<open>max_output\<close> below \<^verbatim>\<open>min_output\<close>: on a forward leg, outside phase 1, the PID
  step commands 10, strictly between 0 and \<^verbatim>\<open>min_output\<close> = 50.\<close>

theorem drive_commands_counterexample:
  "forward_leg near_inverted \<and> \<not> backlash_active near_inverted
   \<and> min_output near_inverted = 50 \<and> max_output near_inverted = 10
   \<and> fst (update (tick_at 0 20 21000) near_inverted) = Return True
   \<and> drive_cmds (calls (drives (snd (update (tick_at 0 20 21000) near_inverted)))) = [10]"
  by (simp add: near_inverted_fields moving_fields forward_leg_def step_defs)

text \<open>Claim C2 as the specification words it fails for a negative \<^verbatim>\<open>Ki\<close>: the clamp
  leaves the integral at 80000, while \<^verbatim>\<open>max_output / Ki\<close> is -80000.\<close>

theorem integral_bound_counterexample:
  "Ki near_negative_Ki \<noteq> 0
   \<and> integral (snd (update (tick_at 0 20 21000) near_negative_Ki)) = 80000
   \<and> max_output (snd (update (tick_at 0 20 21000) near_negative_Ki))
        / Ki (snd (update (tick_at 0 20 21000) near_negative_Ki)) = - 80000
   \<and> \<not> \<bar>integral (snd (update (tick_at 0 20 21000) near_negative_Ki))\<bar>
        \<le> max_output (snd (update (tick_at 0 20 21000) near_negative_Ki))
            / Ki (snd (update (tick_at 0 20 21000) near_negative_Ki))"
  by (simp add: near_negative_Ki_fields moving_fields step_defs)

text \<open>Claim C7 as the specification words it fails: a negative tolerance and a
  \<^verbatim>\<open>max_output\<close> below \<^verbatim>\<open>min_output\<close> are accepted; the tolerance is replaced by its
  absolute value.\<close>

theorem Servo_init_counterexample:
  "Servo_init fresh_bridge
     (default_args\<lparr>arg_tolerance := - 5, arg_max_output := 3, arg_min_output := 5\<rparr>)
   = Inr (servo_default\<lparr>tolerance := 5, max_output := 3, min_output := 5\<rparr>)"
  by (simp add: Servo_init_def servo_default_eq init_defs)

lemma backing_fields:
  "backing =
     \<lparr>Kp = 5 / 100, Ki = 1 / 1000, Kd = 5 / 1000, pid_taper = 30,
          max_output = 80, min_output = 5,
          backlash_takeup = 200, tolerance = 10,
          ramp_ticks = 200, stable_updates = 3,
          ramp_taper_percent = 30,
          drives = \<lparr>enabled = True, auto_brake = True, drive_pwm_min = 65, peel_pwm_min = 65,
      peel1_pwm = 0, peel2_pwm = 91, drive1_pwm = 0, drive2_pwm = 0, calls = [PeelSet (- 75)]\<rparr>,
          integral = 0, previous_error = - 800, last_time_us = 1000,
          setpoint = - 500, original_setpoint = - 100, target_reached = False, stable_count = 0,
          initial_encoder_pos_at_move_start = 300, initial_error_at_move_start = 800,
          backlash_active = True, waiting_for_peel_idle_phase1 = False,
          current_movement_is_forward = False,
          derivative = 0, derivative_alpha = 1 / 10,
          dynamic_scale_threshold = 100,
          peel_motor_enabled_by_servo = True,
          default_peel_speed = 75,
          default_peel_run_time_ms = 1000,
          peel_motor = \<lparr>default_speed = 75, default_time_ms = 1000, current_state = STATE_REVERSE,
      target_run_time_ms = 1000, run_start_time_ms = 0, current_actual_speed = 75\<rparr>\<rparr>"
  by (simp add: backing_def servo_peel_def init_defs target_defs)

lemma backed_fields:
  "backed = backing\<lparr>waiting_for_peel_idle_phase1 := True,
      drives := (drives backing)\<lparr>drive1_pwm := 100, drive2_pwm := 100,
         calls := [PeelSet (- 75), DriveSet 0]\<rparr>\<rparr>
   \<and> fst (update (tick_at (- 510) 500 501000) backing) = Return True"
  by (simp add: backed_def backing_fields step_defs)

text \<open>
  Claim C1 at a failing input. Phase 1 of the move to -100 has ended at position -510
  (the setpoint of phase 1 is -500) while the peel motor was still running, so the servo
  waits. On the next tick, at clock 1000 ms, the peel motor's timer expires and the motor
  is idle; the position is still at or below the setpoint. The tick does not put the
  target in the setpoint and does not turn forward: the branch that waits for the peel
  motor before phase 1 (line 173) takes the flag, starts the peel motor in reverse again
  and the tick returns \<^verbatim>\<open>True\<close> with the servo waiting as before.
\<close>

theorem reverse_leg_wait_restarts_peel:
  "encoder_pos (tick_at (- 510) 1000 1001000) \<le> setpoint backed
   \<and> is_idle (peel_motor (snd (u_peel (tick_at (- 510) 1000 1001000) backed)))
   \<and> fst (update (tick_at (- 510) 1000 1001000) backed) = Return True
   \<and> setpoint (snd (update (tick_at (- 510) 1000 1001000) backed)) = - 500
   \<and> original_setpoint (snd (update (tick_at (- 510) 1000 1001000) backed)) = - 100
   \<and> \<not> current_movement_is_forward (snd (update (tick_at (- 510) 1000 1001000) backed))
   \<and> current_state (peel_motor (snd (update (tick_at (- 510) 1000 1001000) backed)))
        = STATE_REVERSE
   \<and> peel_cmds (calls (drives (snd (update (tick_at (- 510) 1000 1001000) backed))))
        = [- 75, 0, - 75]"
  by (simp add: backed_fields backing_fields step_defs)

section \<open>The constructor\<close>

text \<open>
  Claim C7, as the code has it. \<^verbatim>\<open>Servo.__init__\<close> never fails: for all arguments it
  returns a servo. It takes the absolute value of \<^verbatim>\<open>max_output\<close>, \<^verbatim>\<open>min_output\<close>,
  \<^verbatim>\<open>backlash_takeup\<close>, \<^verbatim>\<open>tolerance\<close> and \<^verbatim>\<open>ramp_ticks\<close>, cuts
  \<^verbatim>\<open>ramp_taper_percent\<close> to 0..100, and stores the gains and \<^verbatim>\<open>stable_updates\<close> as
  given; the order of \<^verbatim>\<open>max_output\<close> and \<^verbatim>\<open>min_output\<close> is not checked.
\<close>

theorem Servo_init_normalises:
  "\<exists>s. Servo_init d a = Inr s
     \<and> max_output s = \<bar>arg_max_output a\<bar> \<and> min_output s = \<bar>arg_min_output a\<bar>
     \<and> backlash_takeup s = \<bar>arg_backlash_takeup a\<bar> \<and> tolerance s = \<bar>arg_tolerance a\<bar>
     \<and> ramp_ticks s = \<bar>arg_ramp_ticks a\<bar>
     \<and> ramp_taper_percent s = max 0 (min 100 (arg_ramp_taper_percent a))
     \<and> Kp s = arg_Kp a \<and> Ki s = arg_Ki a \<and> Kd s = arg_Kd a
     \<and> stable_updates s = arg_stable_updates a
     \<and> configured s"
  by (simp add: Servo_init_def Servo_attrs_def configured_def)

theorem Servo_init_normalises_witness:
  "\<exists>s. Servo_init fresh_bridge (default_args\<lparr>arg_tolerance := - 5\<rparr>) = Inr s
     \<and> tolerance s = 5 \<and> max_output s = 80 \<and> min_output s = 5"
  using Servo_init_normalises [of fresh_bridge "default_args\<lparr>arg_tolerance := - 5\<rparr>"]
  by (auto simp add: default_args_def)

section \<open>Anti-windup\<close>

lemma snd_servo_peel_run:
  "\<exists>p d. snd (servo_peel_run dir t sp now s) = s\<lparr>drives := d, peel_motor := p\<rparr>"
proof (cases "run dir t sp now (peel_motor s, drives s)")
  case (fields r p d)
  then show ?thesis by (cases r) (simp_all add: servo_peel_run_def, blast+)
qed

lemma snd_servo_peel_update:
  "\<exists>p d. snd (servo_peel_update now s) = s\<lparr>drives := d, peel_motor := p\<rparr>"
proof (cases "peel_update now (peel_motor s, drives s)")
  case (fields r p d)
  then show ?thesis by (cases r) (simp_all add: servo_peel_update_def, blast+)
qed

lemma clamped_cong:
  "Ki s' = Ki s \<Longrightarrow> max_output s' = max_output s \<Longrightarrow> integral s' = integral s
     \<Longrightarrow> clamped s' = clamped s"
  by (simp add: clamped_def integral_bound_def)

lemma clamped_zero:
  "Ki s' = Ki s \<Longrightarrow> max_output s' = max_output s \<Longrightarrow> integral s' = 0
     \<Longrightarrow> clamped s \<Longrightarrow> clamped s'"
  by (simp add: clamped_def integral_bound_def)

lemma clamped_drive_set: "clamped s \<Longrightarrow> clamped (snd (servo_drive_set v s))"
  unfolding snd_servo_drive_set by (subst clamped_cong [of _ s]) simp_all

lemma clamped_peel_run: "clamped s \<Longrightarrow> clamped (snd (servo_peel_run dir t sp now s))"
proof -
  assume a: "clamped s"
  obtain p d where e: "snd (servo_peel_run dir t sp now s) = s\<lparr>drives := d, peel_motor := p\<rparr>"
    using snd_servo_peel_run by blast
  show ?thesis unfolding e using a by (subst clamped_cong [of _ s]) simp_all
qed

lemma clamped_peel_update: "clamped s \<Longrightarrow> clamped (snd (servo_peel_update now s))"
proof -
  assume a: "clamped s"
  obtain p d where e: "snd (servo_peel_update now s) = s\<lparr>drives := d, peel_motor := p\<rparr>"
    using snd_servo_peel_update by blast
  show ?thesis unfolding e using a by (subst clamped_cong [of _ s]) simp_all
qed

lemma clamp_abs: "\<bar>max (min x m) (- m)\<bar> \<le> \<bar>m :: real\<bar>"
  by (simp add: max_def min_def abs_if)

lemma snd_pid_step_clamp:
  "\<exists>x d. snd (pid_step e err s) =
      s\<lparr>integral := max (min x (if Ki s \<noteq> 0 then max_output s / Ki s else max_output s))
                      (- (if Ki s \<noteq> 0 then max_output s / Ki s else max_output s)),
        derivative := d\<rparr>"
  unfolding pid_step_def Let_def by (simp only: snd_conv) blast

lemma integral_bound_cong:
  "Ki s' = Ki s \<Longrightarrow> max_output s' = max_output s \<Longrightarrow> integral_bound s' = integral_bound s"
  by (simp add: integral_bound_def)

lemma clamped_pid_step:
  assumes "0 \<le> max_output s"
  shows "clamped (snd (pid_step e err s))"
proof -
  define m where "m = (if Ki s \<noteq> 0 then max_output s / Ki s else max_output s)"
  have b: "\<bar>m\<bar> = integral_bound s"
    using assms by (simp add: m_def integral_bound_def abs_divide)
  obtain x d where i: "snd (pid_step e err s) = s\<lparr>integral := max (min x m) (- m), derivative := d\<rparr>"
    unfolding m_def using snd_pid_step_clamp by blast
  have c: "\<bar>max (min x m) (- m)\<bar> \<le> integral_bound s"
    using clamp_abs [of x m] b by simp
  have d: "integral_bound (s\<lparr>integral := max (min x m) (- m), derivative := d\<rparr>) = integral_bound s"
    by (rule integral_bound_cong) simp_all
  show ?thesis
    unfolding i clamped_def d using assms c by simp
qed


lemma clamped_upd:
  "clamped (s\<lparr>drives := a1\<rparr>) = clamped s"
  "clamped (s\<lparr>previous_error := a2\<rparr>) = clamped s"
  "clamped (s\<lparr>last_time_us := a3\<rparr>) = clamped s"
  "clamped (s\<lparr>setpoint := a4\<rparr>) = clamped s"
  "clamped (s\<lparr>original_setpoint := a5\<rparr>) = clamped s"
  "clamped (s\<lparr>target_reached := a6\<rparr>) = clamped s"
  "clamped (s\<lparr>stable_count := a7\<rparr>) = clamped s"
  "clamped (s\<lparr>initial_encoder_pos_at_move_start := a8\<rparr>) = clamped s"
  "clamped (s\<lparr>initial_error_at_move_start := a9\<rparr>) = clamped s"
  "clamped (s\<lparr>backlash_active := b1\<rparr>) = clamped s"
  "clamped (s\<lparr>waiting_for_peel_idle_phase1 := b2\<rparr>) = clamped s"
  "clamped (s\<lparr>current_movement_is_forward := b3\<rparr>) = clamped s"
  "clamped (s\<lparr>derivative := b4\<rparr>) = clamped s"
  "clamped (s\<lparr>peel_motor := b5\<rparr>) = clamped s"
  "clamped (s\<lparr>integral := 0\<rparr>) = (0 \<le> max_output s)"
  by (simp_all add: clamped_def integral_bound_def)

lemma clamped_max: "clamped s \<Longrightarrow> 0 \<le> max_output s"
  by (simp add: clamped_def)

lemmas clamped_prims = clamped_drive_set clamped_peel_run clamped_peel_update

lemma clamped_u_peel: "clamped s \<Longrightarrow> clamped (snd (u_peel e s))"
  by (simp add: u_peel_def clamped_prims)

lemma clamped_peel_stop: "clamped s \<Longrightarrow> clamped (snd (peel_stop s))"
  by (simp add: peel_stop_def clamped_prims)

lemma clamped_peel_forward: "clamped s \<Longrightarrow> clamped (snd (peel_forward now s))"
  by (simp add: peel_forward_def clamped_prims)

lemma clamped_peel_reverse: "clamped s \<Longrightarrow> clamped (snd (peel_reverse now s))"
  by (simp add: peel_reverse_def clamped_prims)

lemmas clamped_peel = clamped_peel_stop clamped_peel_forward clamped_peel_reverse

lemma clamped_u_disabled: "clamped s \<Longrightarrow> clamped (snd (u_disabled s))"
  unfolding u_disabled_def
  by (auto intro!: seq_preserves [where P = clamped] clamped_peel)

lemma clamped_u_idle: "clamped s \<Longrightarrow> clamped (snd (u_idle s))"
  by (simp add: u_idle_def)

lemma clamped_u_wait: "clamped s \<Longrightarrow> clamped (snd (u_wait e s))"
  unfolding u_wait_def Let_def
  by (auto intro!: clamped_peel simp add: clamped_upd)

lemma clamped_u_phase1_stop: "clamped s \<Longrightarrow> clamped (snd (u_phase1_stop s))"
  unfolding u_phase1_stop_def
  by (auto intro!: seq_preserves [where P = clamped] clamped_prims simp add: clamped_upd)

lemma clamped_u_phase2: "clamped s \<Longrightarrow> clamped (snd (u_phase2 e s))"
  unfolding u_phase2_def Let_def
  by (auto intro!: seq_preserves [where P = clamped] clamped_prims clamped_peel
      simp add: clamped_upd clamped_max)

lemma clamped_u_phase1: "clamped s \<Longrightarrow> clamped (snd (u_phase1 e s))"
  unfolding u_phase1_def
  by (auto intro!: seq_preserves [where P = clamped] clamped_u_phase1_stop clamped_u_phase2)

lemma clamped_u_waiting: "clamped s \<Longrightarrow> clamped (snd (u_waiting s))"
  by (simp add: u_waiting_def)

lemma clamped_u_overshoot: "clamped s \<Longrightarrow> clamped (snd (u_overshoot e s))"
  unfolding u_overshoot_def Let_def
  by (auto intro!: seq_preserves [where P = clamped] clamped_prims simp add: clamped_upd)

lemma clamped_u_reached: "clamped s \<Longrightarrow> clamped (snd (u_reached e s))"
  unfolding u_reached_def Let_def
  by (auto intro!: seq_preserves [where P = clamped] clamped_prims simp add: clamped_upd)

lemma clamped_u_output: "clamped s \<Longrightarrow> clamped (snd (snd (u_output e s)))"
proof -
  assume a: "clamped s"
  have p: "clamped (snd (snd (case pid_step e (setpoint s - encoder_pos e) s of
              (output, s') \<Rightarrow> (None :: error option, output, s'))))"
    using clamped_pid_step [OF clamped_max [OF a], of e "setpoint s - encoder_pos e"]
    by (cases "pid_step e (setpoint s - encoder_pos e) s") simp
  show ?thesis
    unfolding u_output_def Let_def
    using a p by (simp add: snd_raise_case clamped_drive_set)
qed

lemma clamped_u_control: "clamped s \<Longrightarrow> clamped (snd (u_control e s))"
proof -
  assume a: "clamped s"
  obtain r out s' where o: "u_output e s = (r, out, s')"
    by (cases "u_output e s") auto
  have b: "clamped s'"
    using clamped_u_output [OF a, of e] o by simp
  show ?thesis
  proof (cases r)
    case None
    define s1 where "s1 = s'\<lparr>previous_error := setpoint s - encoder_pos e, last_time_us := us_end e\<rparr>"
    define v where "v = max (min out (max_output s1)) (- max_output s1)"
    have u: "u_control e s = seq (servo_drive_set v) (\<lambda>s. (Return True, s)) s1"
      using o None by (simp add: u_control_def Let_def s1_def v_def)
    have "clamped s1" using b by (simp add: s1_def clamped_upd)
    then show ?thesis
      unfolding u snd_seq_const by (rule clamped_drive_set)
  next
    case (Some x)
    then show ?thesis using o b by (simp add: u_control_def)
  qed
qed

lemma clamped_update: "clamped s \<Longrightarrow> clamped (snd (update e s))"
  unfolding update_def
  by (intro seq_preserves [where P = clamped] clamped_u_peel clamped_u_disabled clamped_u_idle
      clamped_u_wait clamped_u_phase1 clamped_u_waiting clamped_u_overshoot clamped_u_reached
      clamped_u_control)


lemma clamped_enable: "clamped s \<Longrightarrow> clamped (snd (enable state s))"
  unfolding enable_def
  by (auto intro!: seq_preserves [where P = clamped] clamped_prims clamped_peel
      simp add: clamped_upd)

lemma clamped_stop: "clamped s \<Longrightarrow> clamped (snd (stop s))"
  unfolding stop_def
  by (auto intro!: seq_preserves [where P = clamped] clamped_prims clamped_peel
      simp add: clamped_upd)

lemma clamped_t_direction: "clamped s \<Longrightarrow> clamped (snd (t_direction t e s))"
  unfolding t_direction_def Let_def
  by (auto intro!: clamped_peel simp add: clamped_upd)

lemma clamped_t_reset: "clamped s \<Longrightarrow> clamped (snd (t_reset e s))"
  unfolding t_reset_def
  by (simp add: clamped_upd clamped_max)

lemma clamped_t_tolerance: "clamped s \<Longrightarrow> clamped (snd (t_tolerance e s))"
  unfolding t_tolerance_def
  by (auto intro!: seq_preserves [where P = clamped] clamped_prims clamped_peel
      simp add: clamped_upd)

lemma clamped_set_target: "clamped s \<Longrightarrow> clamped (snd (set_target t e s))"
  unfolding set_target_def
  by (intro seq_preserves [where P = clamped] clamped_enable clamped_t_direction
      clamped_t_reset clamped_t_tolerance)

lemma clamped_exec: "clamped s \<Longrightarrow> clamped (snd (exec c s))"
  by (cases c) (simp_all add: clamped_set_target clamped_update clamped_stop clamped_enable)

lemma clamped_run_commands: "clamped s \<Longrightarrow> clamped (run_commands cs s)"
  by (induction cs arbitrary: s) (simp_all add: clamped_exec)

lemma clamped_Servo_attrs: "clamped (Servo_attrs d a)"
  by (simp add: clamped_def integral_bound_def Servo_attrs_def)

text \<open>
  Claim C2, as the code has it. From construction on, after every call of
  \<^verbatim>\<open>set_target\<close>, \<^verbatim>\<open>update\<close>, \<^verbatim>\<open>stop\<close> or \<^verbatim>\<open>enable\<close>, in any order and number, the
  integral satisfies \<open>|integral| \<le> max_output / |Ki|\<close> when \<^verbatim>\<open>Ki\<close> is not zero, and
  \<open>|integral| \<le> max_output\<close> when it is. (For a positive \<^verbatim>\<open>Ki\<close> this is the bound
  \<^verbatim>\<open>max_output / Ki\<close> of the specification.)
\<close>

theorem integral_clamped:
  assumes "Servo_init d a = Inr s"
  shows "\<bar>integral (run_commands cs s)\<bar> \<le>
           (if Ki (run_commands cs s) \<noteq> 0
            then max_output (run_commands cs s) / \<bar>Ki (run_commands cs s)\<bar>
            else max_output (run_commands cs s))"
proof -
  have "s = Servo_attrs d a" using assms by (simp add: Servo_init_def)
  then have "clamped (run_commands cs s)"
    using clamped_Servo_attrs clamped_run_commands by simp
  then show ?thesis by (simp add: clamped_def integral_bound_def)
qed

theorem integral_clamped_witness:
  "Servo_init fresh_bridge default_args = Inr servo_default
   \<and> integral (run_commands [SetTarget 100 (target_at 0 0 1000), Update (tick_at 0 20 21000)]
        servo_default) = 2
   \<and> \<bar>integral (run_commands [SetTarget 100 (target_at 0 0 1000), Update (tick_at 0 20 21000)]
        servo_default)\<bar> \<le>
      (if Ki (run_commands [SetTarget 100 (target_at 0 0 1000), Update (tick_at 0 20 21000)]
            servo_default) \<noteq> 0
       then max_output (run_commands [SetTarget 100 (target_at 0 0 1000),
               Update (tick_at 0 20 21000)] servo_default)
            / \<bar>Ki (run_commands [SetTarget 100 (target_at 0 0 1000),
                  Update (tick_at 0 20 21000)] servo_default)\<bar>
       else max_output (run_commands [SetTarget 100 (target_at 0 0 1000),
               Update (tick_at 0 20 21000)] servo_default))"
proof -
  have a: "Servo_init fresh_bridge default_args = Inr servo_default"
    by (simp add: Servo_init_def servo_default_def)
  have b: "integral (run_commands [SetTarget 100 (target_at 0 0 1000),
              Update (tick_at 0 20 21000)] servo_default) = 2"
    using near_fields by (simp add: servo_default_def moving_fields step_defs)
  show ?thesis
    using integral_clamped [OF a, of "[SetTarget 100 (target_at 0 0 1000),
              Update (tick_at 0 20 21000)]"] a b
    by simp
qed

section \<open>The limits of the drive output\<close>

lemma sent_legal_upd:
  "sent_legal lo hi c0 (s\<lparr>integral := a1\<rparr>) = sent_legal lo hi c0 s"
  "sent_legal lo hi c0 (s\<lparr>previous_error := a2\<rparr>) = sent_legal lo hi c0 s"
  "sent_legal lo hi c0 (s\<lparr>last_time_us := a3\<rparr>) = sent_legal lo hi c0 s"
  "sent_legal lo hi c0 (s\<lparr>setpoint := a4\<rparr>) = sent_legal lo hi c0 s"
  "sent_legal lo hi c0 (s\<lparr>original_setpoint := a5\<rparr>) = sent_legal lo hi c0 s"
  "sent_legal lo hi c0 (s\<lparr>target_reached := a6\<rparr>) = sent_legal lo hi c0 s"
  "sent_legal lo hi c0 (s\<lparr>stable_count := a7\<rparr>) = sent_legal lo hi c0 s"
  "sent_legal lo hi c0 (s\<lparr>initial_encoder_pos_at_move_start := a8\<rparr>) = sent_legal lo hi c0 s"
  "sent_legal lo hi c0 (s\<lparr>initial_error_at_move_start := a9\<rparr>) = sent_legal lo hi c0 s"
  "sent_legal lo hi c0 (s\<lparr>backlash_active := b1\<rparr>) = sent_legal lo hi c0 s"
  "sent_legal lo hi c0 (s\<lparr>waiting_for_peel_idle_phase1 := b2\<rparr>) = sent_legal lo hi c0 s"
  "sent_legal lo hi c0 (s\<lparr>current_movement_is_forward := b3\<rparr>) = sent_legal lo hi c0 s"
  "sent_legal lo hi c0 (s\<lparr>derivative := b4\<rparr>) = sent_legal lo hi c0 s"
  "sent_legal lo hi c0 (s\<lparr>peel_motor := b5\<rparr>) = sent_legal lo hi c0 s"
  by (simp_all add: sent_legal_def)

lemma sent_legal_extend:
  assumes "sent_legal lo hi c0 s" and "calls d = calls (drives s) @ ds"
      and "list_all (legal lo hi) (drive_cmds ds)"
  shows "sent_legal lo hi c0 (s\<lparr>drives := d\<rparr>)"
proof -
  obtain cs where c: "calls (drives s) = c0 @ cs" "list_all (legal lo hi) (drive_cmds cs)"
    using assms(1) by (auto simp add: sent_legal_def)
  have "calls d = c0 @ (cs @ ds)" using c assms(2) by simp
  moreover have "list_all (legal lo hi) (drive_cmds (cs @ ds))"
    using c assms(3) by (simp add: drive_cmds_append)
  ultimately show ?thesis
    using assms(1) unfolding sent_legal_def by auto
qed

lemma sent_legal_drive_set:
  assumes "sent_legal lo hi c0 s" and "legal lo hi v"
  shows "sent_legal lo hi c0 (snd (servo_drive_set v s))"
  unfolding snd_servo_drive_set
  by (rule sent_legal_extend [OF assms(1), where ds = "[DriveSet v]"])
     (simp_all add: calls_drive_set assms(2))

lemma calls_peel_set_eq: "peel_set v b a d = (r, d') \<Longrightarrow> calls d' = calls d @ [PeelSet v]"
  using calls_peel_set [of v b a d] by simp

lemma calls_set_state:
  "calls (snd (snd (set_state st sp (p, d)))) = calls d
   \<or> (\<exists>v. calls (snd (snd (set_state st sp (p, d)))) = calls d @ [PeelSet v])"
  unfolding set_state_def Let_def
  by (cases st) (auto split: prod.splits option.splits dest: calls_peel_set_eq)

lemma calls_set_state_quiet:
  "\<exists>ps. calls (snd (snd (set_state st sp (p, d)))) = calls d @ ps \<and> drive_cmds ps = []"
proof -
  have "calls (snd (snd (set_state st sp (p, d)))) = calls d @ [] \<and> drive_cmds [] = []
      \<or> (\<exists>v. calls (snd (snd (set_state st sp (p, d)))) = calls d @ [PeelSet v]
            \<and> drive_cmds [PeelSet v] = [])"
    using calls_set_state [of st sp p d] by simp
  then show ?thesis by blast
qed

lemma calls_run_quiet:
  "\<exists>ps. calls (snd (snd (run dir t sp now (p, d)))) = calls d @ ps \<and> drive_cmds ps = []"
proof -
  have a: "calls d = calls d @ [] \<and> drive_cmds [] = []" by simp
  have b: "\<exists>ps. calls d' = calls d @ ps \<and> drive_cmds ps = []"
    if "set_state st x (p, d) = (r, p', d')" for st x r p' d'
    using calls_set_state_quiet [of st x p d] that by simp
  show ?thesis
    unfolding run_def Let_def
    using a calls_set_state_quiet [of STATE_STOPPED "Some 0" p d]
    by (auto split: option.splits prod.splits dest: b)
qed

lemma calls_peel_update_quiet:
  "\<exists>ps. calls (snd (snd (peel_update now (p, d)))) = calls d @ ps \<and> drive_cmds ps = []"
proof -
  have a: "calls d = calls d @ [] \<and> drive_cmds [] = []" by simp
  show ?thesis
    unfolding peel_update_def Let_def
    using a calls_set_state_quiet [of STATE_STOPPED "Some 0" p d]
    by auto
qed

lemma sent_legal_peel_run:
  assumes "sent_legal lo hi c0 s"
  shows "sent_legal lo hi c0 (snd (servo_peel_run dir t sp now s))"
proof -
  obtain r p d where e: "run dir t sp now (peel_motor s, drives s) = (r, p, d)"
    by (cases "run dir t sp now (peel_motor s, drives s)") auto
  obtain ps where ps: "calls d = calls (drives s) @ ps" "drive_cmds ps = []"
    using calls_run_quiet [of dir t sp now "peel_motor s" "drives s"] e by auto
  have "snd (servo_peel_run dir t sp now s) = s\<lparr>drives := d, peel_motor := p\<rparr>"
    using e by (cases r) (simp_all add: servo_peel_run_def)
  moreover have "sent_legal lo hi c0 (s\<lparr>drives := d\<rparr>)"
    by (rule sent_legal_extend [OF assms ps(1)]) (simp add: ps(2))
  ultimately show ?thesis by (simp add: sent_legal_upd)
qed

lemma sent_legal_peel_update:
  assumes "sent_legal lo hi c0 s"
  shows "sent_legal lo hi c0 (snd (servo_peel_update now s))"
proof -
  obtain r p d where e: "peel_update now (peel_motor s, drives s) = (r, p, d)"
    by (cases "peel_update now (peel_motor s, drives s)") auto
  obtain ps where ps: "calls d = calls (drives s) @ ps" "drive_cmds ps = []"
    using calls_peel_update_quiet [of now "peel_motor s" "drives s"] e by auto
  have "snd (servo_peel_update now s) = s\<lparr>drives := d, peel_motor := p\<rparr>"
    using e by (cases r) (simp_all add: servo_peel_update_def)
  moreover have "sent_legal lo hi c0 (s\<lparr>drives := d\<rparr>)"
    by (rule sent_legal_extend [OF assms ps(1)]) (simp add: ps(2))
  ultimately show ?thesis by (simp add: sent_legal_upd)
qed


lemma legal_zero: "legal lo hi 0"
  by (simp add: legal_def)

lemma legal_final:
  assumes "0 \<le> lo" and "lo \<le> hi"
      and "out = 0 \<or> (lo \<le> out \<and> out \<le> hi) \<or> (- hi \<le> out \<and> out \<le> - lo)"
  shows "legal lo hi (max (min out hi) (- hi))"
  using assms by (auto simp add: legal_def max_def min_def)

lemma reverse_output_bounds:
  assumes "min_output s \<le> max_output s"
  shows "- max_output s \<le> reverse_output s dst \<and> reverse_output s dst \<le> - min_output s"
  using assms unfolding reverse_output_def Let_def by (simp add: max_def min_def)

lemma ramp_output_bounds:
  assumes "min_output s \<le> max_output s"
  shows "min_output s \<le> ramp_output s dst \<and> ramp_output s dst \<le> max_output s"
proof -
  define mr where
    "mr = min (max (ramp_taper_percent s / 100 * max_output s) (min_output s)) (max_output s)"
  have m: "min_output s \<le> mr" "mr \<le> max_output s"
    using assms by (simp_all add: mr_def)
  show ?thesis
  proof (cases "initial_error_at_move_start s - ramp_ticks s > 0")
    case True
    define pr where "pr = max 0 (min 1 (real_of_int (dst - ramp_ticks s)
                                 / real_of_int (initial_error_at_move_start s - ramp_ticks s)))"
    have "0 \<le> pr" by (simp add: pr_def)
    then have "0 \<le> (max_output s - mr) * pr" using m by simp
    moreover have "ramp_output s dst = min (mr + (max_output s - mr) * pr) (max_output s)"
      using True by (simp add: ramp_output_def Let_def mr_def pr_def)
    ultimately show ?thesis using m by simp
  next
    case False
    then have "ramp_output s dst = min mr (max_output s)"
      by (simp add: ramp_output_def Let_def mr_def)
    then show ?thesis using m by simp
  qed
qed

lemma fst_pid_step:
  "\<exists>x. fst (pid_step e err s) = min (max x (min_output s)) (max_output s)"
  unfolding pid_step_def Let_def by (simp only: fst_conv) blast

lemma pid_step_bounds:
  assumes "min_output s \<le> max_output s"
  shows "min_output s \<le> fst (pid_step e err s) \<and> fst (pid_step e err s) \<le> max_output s"
proof -
  obtain x where "fst (pid_step e err s) = min (max x (min_output s)) (max_output s)"
    using fst_pid_step by blast
  then show ?thesis using assms by simp
qed

lemma snd_pid_step_frame:
  "sent_legal lo hi c0 (snd (pid_step e err s)) = sent_legal lo hi c0 s"
proof -
  obtain i d where "snd (pid_step e err s) = s\<lparr>integral := i, derivative := d\<rparr>"
    using snd_pid_step by blast
  then show ?thesis by (simp add: sent_legal_upd)
qed

lemma sent_legal_u_output:
  assumes "sent_legal lo hi c0 s" and "lo \<le> hi"
  shows "sent_legal lo hi c0 (snd (snd (u_output e s)))
       \<and> (fst (snd (u_output e s)) = 0
          \<or> (lo \<le> fst (snd (u_output e s)) \<and> fst (snd (u_output e s)) \<le> hi)
          \<or> (- hi \<le> fst (snd (u_output e s)) \<and> fst (snd (u_output e s)) \<le> - lo))"
proof -
  have lh: "min_output s = lo" "max_output s = hi"
    using assms(1) by (simp_all add: sent_legal_def)
  have le: "min_output s \<le> max_output s" using assms(2) lh by simp
  let ?err = "setpoint s - encoder_pos e"
  consider (rev) "backlash_active s \<and> \<not> current_movement_is_forward s"
    | (ramp) "\<not> (backlash_active s \<and> \<not> current_movement_is_forward s)" "\<bar>?err\<bar> > ramp_ticks s"
    | (tol) "\<not> (backlash_active s \<and> \<not> current_movement_is_forward s)"
        "\<not> \<bar>?err\<bar> > ramp_ticks s" "\<bar>?err\<bar> \<le> tolerance s"
    | (pid) "\<not> (backlash_active s \<and> \<not> current_movement_is_forward s)"
        "\<not> \<bar>?err\<bar> > ramp_ticks s" "\<not> \<bar>?err\<bar> \<le> tolerance s"
    by blast
  then show ?thesis
  proof cases
    case rev
    then have "u_output e s = (None, reverse_output s \<bar>?err\<bar>, s)"
      by (auto simp add: u_output_def Let_def)
    then show ?thesis
      using assms(1) reverse_output_bounds [OF le, of "\<bar>?err\<bar>"] lh by simp
  next
    case ramp
    then have "u_output e s = (None, ramp_output s \<bar>?err\<bar>, s)"
      by (auto simp add: u_output_def Let_def)
    then show ?thesis
      using assms(1) ramp_output_bounds [OF le, of "\<bar>?err\<bar>"] lh by simp
  next
    case tol
    then have u: "u_output e s =
        (case servo_drive_set 0 s of
              (Raise x, s') \<Rightarrow> (Some x, 0, s')
            | (_, s') \<Rightarrow> (None, 0, s'))"
      by (auto simp add: u_output_def Let_def)
    have "u_output e s =
        (None, 0, s\<lparr>drives := snd (drive_set 0 None False (drives s))\<rparr>)"
      unfolding u by (simp add: servo_drive_set_zero)
    moreover have "sent_legal lo hi c0 (snd (servo_drive_set 0 s))"
      by (rule sent_legal_drive_set [OF assms(1) legal_zero])
    ultimately show ?thesis by (simp add: snd_servo_drive_set)
  next
    case pid
    then have "u_output e s =
        (case pid_step e ?err s of (output, s') \<Rightarrow> (None, output, s'))"
      by (auto simp add: u_output_def Let_def)
    then have "u_output e s = (None, fst (pid_step e ?err s), snd (pid_step e ?err s))"
      by (simp add: case_prod_beta)
    then show ?thesis
      using assms(1) pid_step_bounds [OF le, of e ?err] lh by (simp add: snd_pid_step_frame)
  qed
qed

lemma sent_legal_u_control:
  assumes "sent_legal lo hi c0 s" and "0 \<le> lo" and "lo \<le> hi"
  shows "sent_legal lo hi c0 (snd (u_control e s))"
proof -
  obtain r out s' where o: "u_output e s = (r, out, s')"
    by (cases "u_output e s") auto
  have b: "sent_legal lo hi c0 s'"
    and rng: "out = 0 \<or> (lo \<le> out \<and> out \<le> hi) \<or> (- hi \<le> out \<and> out \<le> - lo)"
    using sent_legal_u_output [OF assms(1,3), of e] o by simp_all
  show ?thesis
  proof (cases r)
    case None
    define s1 where "s1 = s'\<lparr>previous_error := setpoint s - encoder_pos e, last_time_us := us_end e\<rparr>"
    define v where "v = max (min out (max_output s1)) (- max_output s1)"
    have u: "u_control e s = seq (servo_drive_set v) (\<lambda>s. (Return True, s)) s1"
      using o None by (simp add: u_control_def Let_def s1_def v_def)
    have p1: "sent_legal lo hi c0 s1" using b by (simp add: s1_def sent_legal_upd)
    then have "max_output s1 = hi" by (simp add: sent_legal_def)
    then have "legal lo hi v"
      using legal_final [OF assms(2,3) rng] by (simp add: v_def)
    then show ?thesis
      unfolding u snd_seq_const by (rule sent_legal_drive_set [OF p1])
  next
    case (Some x)
    then show ?thesis using o b by (simp add: u_control_def)
  qed
qed


lemmas sent_legal_prims = sent_legal_drive_set [OF _ legal_zero] sent_legal_peel_run
  sent_legal_peel_update

lemma sent_legal_peel:
  "sent_legal lo hi c0 s \<Longrightarrow> sent_legal lo hi c0 (snd (peel_stop s))"
  "sent_legal lo hi c0 s \<Longrightarrow> sent_legal lo hi c0 (snd (peel_forward now s))"
  "sent_legal lo hi c0 s \<Longrightarrow> sent_legal lo hi c0 (snd (peel_reverse now s))"
  by (simp_all add: peel_stop_def peel_forward_def peel_reverse_def sent_legal_peel_run)

lemma sent_legal_u_peel:
  "sent_legal lo hi c0 s \<Longrightarrow> sent_legal lo hi c0 (snd (u_peel e s))"
  by (simp add: u_peel_def sent_legal_peel_update)

lemma sent_legal_u_disabled:
  "sent_legal lo hi c0 s \<Longrightarrow> sent_legal lo hi c0 (snd (u_disabled s))"
  unfolding u_disabled_def
  by (auto intro!: seq_preserves [where P = "sent_legal lo hi c0"] sent_legal_peel)

lemma sent_legal_u_idle:
  "sent_legal lo hi c0 s \<Longrightarrow> sent_legal lo hi c0 (snd (u_idle s))"
  by (simp add: u_idle_def)

lemma sent_legal_u_wait:
  "sent_legal lo hi c0 s \<Longrightarrow> sent_legal lo hi c0 (snd (u_wait e s))"
  unfolding u_wait_def Let_def
  by (auto intro!: sent_legal_peel simp add: sent_legal_upd)

lemma sent_legal_u_phase1_stop:
  "sent_legal lo hi c0 s \<Longrightarrow> sent_legal lo hi c0 (snd (u_phase1_stop s))"
  unfolding u_phase1_stop_def
  by (auto intro!: seq_preserves [where P = "sent_legal lo hi c0"] sent_legal_prims
      simp add: sent_legal_upd)

lemma sent_legal_u_phase2:
  "sent_legal lo hi c0 s \<Longrightarrow> sent_legal lo hi c0 (snd (u_phase2 e s))"
  unfolding u_phase2_def Let_def
  by (auto intro!: seq_preserves [where P = "sent_legal lo hi c0"] sent_legal_prims
      sent_legal_peel simp add: sent_legal_upd)

lemma sent_legal_u_phase1:
  "sent_legal lo hi c0 s \<Longrightarrow> sent_legal lo hi c0 (snd (u_phase1 e s))"
  unfolding u_phase1_def
  by (auto intro!: seq_preserves [where P = "sent_legal lo hi c0"] sent_legal_u_phase1_stop
      sent_legal_u_phase2)

lemma sent_legal_u_waiting:
  "sent_legal lo hi c0 s \<Longrightarrow> sent_legal lo hi c0 (snd (u_waiting s))"
  by (simp add: u_waiting_def)

lemma sent_legal_u_overshoot:
  "sent_legal lo hi c0 s \<Longrightarrow> sent_legal lo hi c0 (snd (u_overshoot e s))"
  unfolding u_overshoot_def Let_def
  by (auto intro!: seq_preserves [where P = "sent_legal lo hi c0"] sent_legal_prims
      simp add: sent_legal_upd)

lemma sent_legal_u_reached:
  "sent_legal lo hi c0 s \<Longrightarrow> sent_legal lo hi c0 (snd (u_reached e s))"
  unfolding u_reached_def Let_def
  by (auto intro!: seq_preserves [where P = "sent_legal lo hi c0"] sent_legal_prims
      simp add: sent_legal_upd)

lemma sent_legal_update:
  assumes "sent_legal lo hi c0 s" and "0 \<le> lo" and "lo \<le> hi"
  shows "sent_legal lo hi c0 (snd (update e s))"
  unfolding update_def
  by (intro seq_preserves [where P = "sent_legal lo hi c0"] sent_legal_u_peel
      sent_legal_u_disabled sent_legal_u_idle sent_legal_u_wait sent_legal_u_phase1
      sent_legal_u_waiting sent_legal_u_overshoot sent_legal_u_reached
      sent_legal_u_control [OF _ assms(2,3)] assms(1))

text \<open>
  Claim C5, as the code has it. For a servo whose \<^verbatim>\<open>min_output\<close> is not above its
  \<^verbatim>\<open>max_output\<close> (and not negative, as the constructor leaves it), every \<^verbatim>\<open>drive_set\<close>
  that a call of \<^verbatim>\<open>update\<close> makes has a speed that is zero or of a magnitude from
  \<^verbatim>\<open>min_output\<close> to \<^verbatim>\<open>max_output\<close>; the output of phase 1 is no exception.
\<close>

theorem drive_commands_legal:
  assumes "0 \<le> min_output s" and "min_output s \<le> max_output s"
  shows "\<exists>cs. calls (drives (snd (update e s))) = calls (drives s) @ cs
            \<and> list_all (legal (min_output s) (max_output s)) (drive_cmds cs)"
proof -
  have "sent_legal (min_output s) (max_output s) (calls (drives s)) s"
    by (simp add: sent_legal_def)
  then have "sent_legal (min_output s) (max_output s) (calls (drives s)) (snd (update e s))"
    using assms by (rule sent_legal_update)
  then show ?thesis by (simp add: sent_legal_def)
qed

theorem drive_commands_legal_witness:
  "0 \<le> min_output moving \<and> min_output moving \<le> max_output moving
   \<and> calls (drives (snd (update (tick_at 0 20 21000) moving))) = calls (drives moving) @ [DriveSet 80]
   \<and> (\<exists>cs. calls (drives (snd (update (tick_at 0 20 21000) moving))) = calls (drives moving) @ cs
            \<and> list_all (legal (min_output moving) (max_output moving)) (drive_cmds cs))"
proof -
  have a: "0 \<le> min_output moving" "min_output moving \<le> max_output moving"
    by (simp_all add: moving_fields)
  have b: "calls (drives (snd (update (tick_at 0 20 21000) moving)))
             = calls (drives moving) @ [DriveSet 80]"
    by (simp add: moving_fields step_defs)
  show ?thesis
    using drive_commands_legal [OF a, of "tick_at 0 20 21000"] a b by simp
qed

section \<open>The backward move\<close>

lemma peel_reverse_fields:
  "setpoint (snd (peel_reverse now s)) = setpoint s"
  "original_setpoint (snd (peel_reverse now s)) = original_setpoint s"
  "backlash_active (snd (peel_reverse now s)) = backlash_active s"
  "current_movement_is_forward (snd (peel_reverse now s)) = current_movement_is_forward s"
  "target_reached (snd (peel_reverse now s)) = target_reached s"
  "waiting_for_peel_idle_phase1 (snd (peel_reverse now s)) = waiting_for_peel_idle_phase1 s"
proof -
  obtain p d where "snd (peel_reverse now s) = s\<lparr>drives := d, peel_motor := p\<rparr>"
    unfolding peel_reverse_def using snd_servo_peel_run by blast
  then show
    "setpoint (snd (peel_reverse now s)) = setpoint s"
    "original_setpoint (snd (peel_reverse now s)) = original_setpoint s"
    "backlash_active (snd (peel_reverse now s)) = backlash_active s"
    "current_movement_is_forward (snd (peel_reverse now s)) = current_movement_is_forward s"
    "target_reached (snd (peel_reverse now s)) = target_reached s"
    "waiting_for_peel_idle_phase1 (snd (peel_reverse now s)) = waiting_for_peel_idle_phase1 s"
    by simp_all
qed

lemma snd_seq_cases:
  "snd (seq f g s) = snd (f s) \<or> snd (seq f g s) = snd (g (snd (f s)))"
proof (cases "f s")
  case (Pair r s')
  then show ?thesis by (cases r) (simp_all add: seq_def)
qed

text \<open>The first half of claim C1: what \<^verbatim>\<open>set_target\<close> leaves for a target below the
  current position.\<close>

lemma set_target_backward:
  assumes "target_position < target_pos e"
  shows "setpoint (snd (set_target target_position e s))
           = target_position - (ramp_ticks s + backlash_takeup s)
       \<and> original_setpoint (snd (set_target target_position e s)) = target_position
       \<and> backlash_active (snd (set_target target_position e s))
       \<and> \<not> current_movement_is_forward (snd (set_target target_position e s))
       \<and> \<not> target_reached (snd (set_target target_position e s))
       \<and> waiting_for_peel_idle_phase1 (snd (set_target target_position e s))
           = (peel_motor_enabled_by_servo s \<and> \<not> is_idle (peel_motor s))"
proof -
  define Q where "Q = (\<lambda>s' :: servo. setpoint s' = target_position - (ramp_ticks s + backlash_takeup s)
       \<and> original_setpoint s' = target_position
       \<and> backlash_active s' \<and> \<not> current_movement_is_forward s' \<and> \<not> target_reached s'
       \<and> waiting_for_peel_idle_phase1 s'
           = (peel_motor_enabled_by_servo s \<and> \<not> is_idle (peel_motor s)))"
  define s0 where "s0 = s\<lparr>drives := hbridge_enable True (drives s)\<rparr>"
  have en: "enable True s = (Next, s0)" by (simp add: enable_def s0_def)
  have td: "Q (snd (t_direction target_position e s0))"
    using assms
    by (simp add: Q_def t_direction_def Let_def s0_def peel_reverse_fields)
  have rest: "Q (snd (seq (t_reset e) (t_tolerance e) s'))" if "Q s'" for s'
    using that by (simp add: Q_def seq_def t_reset_def t_tolerance_def)
  have "snd (set_target target_position e s)
          = snd (seq (t_direction target_position e) (seq (t_reset e) (t_tolerance e)) s0)"
    unfolding set_target_def by (simp add: seq_Next [where f = "enable True", OF en])
  then have "Q (snd (set_target target_position e s))"
    using snd_seq_cases [of "t_direction target_position e" "seq (t_reset e) (t_tolerance e)" s0]
      td rest by auto
  then show ?thesis by (simp add: Q_def)
qed


lemma run_reverse_from_idle:
  assumes "current_state p = STATE_STOPPED" and "0 < t"
  shows "\<exists>p' d'. run (- 1) (Some t) (Some sp) now (p, d) = (None, p', d')
            \<and> current_state p' = STATE_REVERSE \<and> enabled d' = enabled d
            \<and> drive_cmds (calls d') = drive_cmds (calls d)"
proof -
  define v where "v = min \<bar>sp\<bar> 100"
  have v: "\<bar>v\<bar> \<le> 100" by (simp add: v_def)
  have st: "set_state STATE_REVERSE (Some v) (p, d) =
           (None, p\<lparr>current_state := STATE_REVERSE, current_actual_speed := v\<rparr>,
            snd (peel_set (- v) None False d))"
    using set_state_running [of STATE_REVERSE v p d] v assms(1) by simp
  have "run (- 1) (Some t) (Some sp) now (p, d) =
           (None,
            p\<lparr>current_state := STATE_REVERSE, current_actual_speed := v,
              run_start_time_ms := now, target_run_time_ms := t\<rparr>,
            snd (peel_set (- v) None False d))"
    using assms st
    by (simp add: run_def state_map_def run_time_of_def actual_speed_of_def Let_def v_def)
  then show ?thesis
    by (simp add: enabled_peel_set drive_cmds_peel_set)
qed

text \<open>
  The second half of claim C1 fails in general, not only at one input. Take a servo that
  uses the peel motor with a run time above zero and that waits after the end of
  phase 1 (backward move, waiting flag set, move not finished). On a tick at which the
  peel motor is idle once its timer has been served and the position is still at or below
  the setpoint, the setpoint is not replaced by the target and the movement stays
  backward: the peel motor is started in reverse again and the servo goes on waiting.
\<close>

lemma update_waiting_restarts_peel:
  assumes "enabled (drives s)" and "\<not> target_reached s"
      and "backlash_active s" and "\<not> current_movement_is_forward s"
      and "waiting_for_peel_idle_phase1 s"
      and "peel_motor_enabled_by_servo s" and "0 < default_peel_run_time_ms s"
      and "is_idle (peel_motor (snd (u_peel e s)))"
      and "encoder_pos e \<le> setpoint s"
  shows "fst (update e s) = Return True
       \<and> setpoint (snd (update e s)) = setpoint s
       \<and> backlash_active (snd (update e s))
       \<and> \<not> current_movement_is_forward (snd (update e s))
       \<and> waiting_for_peel_idle_phase1 (snd (update e s))
       \<and> \<not> target_reached (snd (update e s))
       \<and> current_state (peel_motor (snd (update e s))) = STATE_REVERSE"
proof -
  obtain p1 d1 where u1: "u_peel e s = (Next, s\<lparr>drives := d1, peel_motor := p1\<rparr>)"
    and en1: "enabled d1 = enabled (drives s)"
    using u_peel_quiet [of e s] by blast
  define s1 where "s1 = s\<lparr>drives := d1, peel_motor := p1\<rparr>"
  have idle1: "current_state p1 = STATE_STOPPED"
    using assms(8) u1 by (simp add: is_idle_def)
  have f1: "enabled (drives s1)" "\<not> target_reached s1" "backlash_active s1"
    "\<not> current_movement_is_forward s1" "waiting_for_peel_idle_phase1 s1"
    "peel_motor_enabled_by_servo s1" "is_idle (peel_motor s1)" "setpoint s1 = setpoint s"
    "default_peel_run_time_ms s1 = default_peel_run_time_ms s"
    using assms en1 idle1 by (simp_all add: s1_def is_idle_def)
  obtain p2 d2 where r: "run (- 1) (Some (default_peel_run_time_ms s)) (Some (default_peel_speed s1))
        (ms_run_phase1 e) (p1, d1) = (None, p2, d2)"
    and rev: "current_state p2 = STATE_REVERSE"
    using run_reverse_from_idle [OF idle1 assms(7), of "default_peel_speed s1" "ms_run_phase1 e" d1]
    by blast
  define s2 where "s2 = s1\<lparr>waiting_for_peel_idle_phase1 := False, drives := d2, peel_motor := p2\<rparr>"
  have w: "u_wait e s1 = (Next, s2)"
    using f1 r
    by (simp add: u_wait_def Let_def peel_reverse_def servo_peel_run_def s1_def s2_def)
  have f2: "backlash_active s2" "\<not> current_movement_is_forward s2"
    "\<not> waiting_for_peel_idle_phase1 s2" "peel_motor_enabled_by_servo s2"
    "\<not> is_idle (peel_motor s2)" "setpoint s2 = setpoint s" "\<not> target_reached s2"
    using f1 rev by (simp_all add: s2_def is_idle_def)
  define s3 where "s3 = s2\<lparr>drives := snd (drive_set 0 None False (drives s2)),
                         waiting_for_peel_idle_phase1 := True\<rparr>"
  have st: "u_phase1_stop s2 = (Next, s3)"
    using f2 by (simp add: u_phase1_stop_def seq_def servo_drive_set_zero s3_def)
  have f3: "backlash_active s3" "\<not> current_movement_is_forward s3"
    "waiting_for_peel_idle_phase1 s3" "peel_motor_enabled_by_servo s3"
    "\<not> is_idle (peel_motor s3)" "setpoint s3 = setpoint s" "\<not> target_reached s3"
    "current_state (peel_motor s3) = STATE_REVERSE"
    using f2 rev by (simp_all add: s3_def s2_def)
  have p2: "u_phase2 e s3 = (Return True, s3)"
    using f3 by (simp add: u_phase2_def)
  have ph: "u_phase1 e s2 = (Return True, s3)"
    using f2 assms(9) p2 st by (simp add: u_phase1_def seq_def)
  have d: "u_disabled s1 = (Next, s1)" using f1 by (simp add: u_disabled_def)
  have i: "u_idle s1 = (Next, s1)" using f1 by (simp add: u_idle_def)
  have "update e s = (Return True, s3)"
    unfolding update_def
    by (simp only: seq_Next [where f = "u_peel e" and s = s, OF u1 [folded s1_def]]
        seq_Next [where f = u_disabled and s = s1, OF d]
        seq_Next [where f = u_idle and s = s1, OF i]
        seq_Next [where f = "u_wait e" and s = s1, OF w]
        seq_Return [where f = "u_phase1 e" and s = s2, OF ph])
  then show ?thesis using f3 by simp
qed

end
